theory Spec2Isabelle
  imports Main "HOL-Library.Sublist"
begin

section \<open>JavaScript string and array primitives\<close>

text \<open>
  The helper library is ES5 code running on the JVM.  Strings are modelled as
  \<open>string\<close>; \<open>null\<close> and \<open>undefined\<close> are modelled by \<open>None\<close> of an option
  type.  The functions of this section are the built-in operations the source calls:
  \<open>split\<close>, \<open>join\<close>, \<open>slice\<close>/\<open>splice\<close> (as \<open>take\<close>/\<open>drop\<close>), \<open>replace\<close> with a
  string pattern, and the three regular expressions of \<open>validate_uid\<close>.
\<close>

text \<open>\<open>expr.split(" ")\<close>: the empty string yields one empty token, two adjacent
  separators yield an empty token between them.\<close>

fun split :: "char \<Rightarrow> string \<Rightarrow> string list" where
  "split d [] = [[]]"
| "split d (c # cs) =
     (if c = d then [] # split d cs
      else (case split d cs of
              [] \<Rightarrow> [[c]]
            | w # ws \<Rightarrow> (c # w) # ws))"

text \<open>\<open>array.join(sep)\<close>.\<close>

fun join :: "string \<Rightarrow> string list \<Rightarrow> string" where
  "join sep [] = []"
| "join sep [x] = x"
| "join sep (x # y # ys) = x @ sep @ join sep (y # ys)"

text \<open>\<open>s.replace(" ", "-")\<close> with a one-character string pattern: only the first
  occurrence is replaced.\<close>

fun replace_first :: "char \<Rightarrow> string \<Rightarrow> string \<Rightarrow> string" where
  "replace_first p r [] = []"
| "replace_first p r (c # cs) = (if c = p then r @ cs else c # replace_first p r cs)"

text \<open>String concatenation with a value that may be \<open>null\<close>.\<close>

fun str_of :: "string option \<Rightarrow> string" where
  "str_of None = ''null''"
| "str_of (Some s) = s"

text \<open>Truthiness of a string-or-null value: \<open>null\<close>, \<open>undefined\<close> and the empty
  string are falsy.\<close>

fun truthy :: "string option \<Rightarrow> bool" where
  "truthy None = False"
| "truthy (Some s) = (s \<noteq> [])"

text \<open>The character classes \<open>[A-Za-z0-9]\<close> and \<open>[A-Za-z0-9_-]\<close>.\<close>

definition alnum :: "char \<Rightarrow> bool" where
  "alnum c = (c \<in> set ''ABCDEFGHIJKLMNOPQRSTUVWXYZabcdefghijklmnopqrstuvwxyz0123456789'')"

definition uid_char :: "char \<Rightarrow> bool" where
  "uid_char c = (alnum c \<or> c = CHR ''_'' \<or> c = CHR ''-'')"

text \<open>\<open>uid.match(/[^A-Za-z0-9_-]/)\<close> and \<open>uid.replace(/[^A-Za-z0-9_-]/, "_")\<close>
  (no \<open>g\<close> flag: the first match only).\<close>

definition match_invalid :: "string \<Rightarrow> bool" where
  "match_invalid uid = list_ex (\<lambda>c. \<not> uid_char c) uid"

fun replace_invalid :: "string \<Rightarrow> string" where
  "replace_invalid [] = []"
| "replace_invalid (c # cs) =
     (if \<not> uid_char c then CHR ''_'' # cs else c # replace_invalid cs)"

text \<open>\<open>uid.match(/^[A-Za-z0-9]/)\<close>.\<close>

fun match_leading_alnum :: "string \<Rightarrow> bool" where
  "match_leading_alnum [] = False"
| "match_leading_alnum (c # cs) = alnum c"

text \<open>\<open>uid.match(/__+/)\<close> and \<open>uid.replace(/__+/, "_")\<close>: the leftmost run of two or
  more underscores, matched greedily, becomes one underscore.\<close>

fun match_underscores :: "string \<Rightarrow> bool" where
  "match_underscores [] = False"
| "match_underscores [a] = False"
| "match_underscores (a # b # cs) =
     ((a = CHR ''_'' \<and> b = CHR ''_'') \<or> match_underscores (b # cs))"

fun replace_underscores :: "string \<Rightarrow> string" where
  "replace_underscores [] = []"
| "replace_underscores [a] = [a]"
| "replace_underscores (a # b # cs) =
     (if a = CHR ''_'' \<and> b = CHR ''_''
      then CHR ''_'' # dropWhile (\<lambda>c. c = CHR ''_'') cs
      else a # replace_underscores (b # cs))"

section \<open>Identifier sanitization: \<open>validate_uid\<close>\<close>

text \<open>The two \<open>while\<close> loops of \<open>validate_uid\<close> (core/items.js).\<close>

function sanitize_loop :: "string \<Rightarrow> string" where
  "sanitize_loop uid =
     (if match_invalid uid then sanitize_loop (replace_invalid uid) else uid)"
  by pat_completeness auto
termination
proof (relation "measure (\<lambda>uid. length (filter (\<lambda>c. \<not> uid_char c) uid))")
  show "wf (measure (\<lambda>uid. length (filter (\<lambda>c. \<not> uid_char c) uid)))"
    by simp
next
  fix uid :: string
  have underscore: "uid_char (CHR ''_'')"
    by (simp add: uid_char_def)
  assume "match_invalid uid"
  then have "length (filter (\<lambda>c. \<not> uid_char c) (replace_invalid uid))
      < length (filter (\<lambda>c. \<not> uid_char c) uid)"
    by (induction uid) (auto simp: match_invalid_def underscore)
  then show "(replace_invalid uid, uid)
      \<in> measure (\<lambda>uid. length (filter (\<lambda>c. \<not> uid_char c) uid))"
    by simp
qed

function collapse_loop :: "string \<Rightarrow> string" where
  "collapse_loop uid =
     (if match_underscores uid then collapse_loop (replace_underscores uid) else uid)"
  by pat_completeness auto
termination
proof (relation "measure length")
  show "wf (measure (length :: string \<Rightarrow> nat))"
    by simp
next
  fix uid :: string
  assume "match_underscores uid"
  then have "length (replace_underscores uid) < length uid"
  proof (induction uid rule: match_underscores.induct)
    case (3 a b cs)
    have "length (dropWhile (\<lambda>c. c = CHR ''_'') cs) \<le> length cs"
      by (rule length_dropWhile_le)
    with 3 show ?case by auto
  qed simp_all
  then show "(replace_underscores uid, uid) \<in> measure length"
    by simp
qed

declare sanitize_loop.simps [simp del]
declare collapse_loop.simps [simp del]

text \<open>
  \<open>validate_uid(uid)\<close>.  The second argument is the string that
  \<open>UUID.randomUUID().toString()\<close> returns in this call; exactly one is drawn on
  either branch.
\<close>

definition validate_uid :: "string option \<Rightarrow> string \<Rightarrow> string" where
  "validate_uid uid fresh =
     (let uid1 = (if \<not> truthy uid then fresh
                  else sanitize_loop (str_of uid) @ fresh);
          uid2 = (if \<not> match_leading_alnum uid1 then ''javascript'' @ uid1 else uid1)
      in collapse_loop uid2)"

section \<open>The host platform\<close>

text \<open>
  The openHAB runtime is outside the repository; the model takes it as a parameter.
  An \<open>item\<close> is what \<open>itemRegistry.getItem\<close> returns, with the properties the
  source reads.  \<open>getMembers\<close> and \<open>getAllMembers\<close> are the arrays that
  \<open>Java.from(item.getMembers())\<close> and \<open>Java.from(item.getAllMembers())\<close> produce; only
  a Group item has these methods.
\<close>

datatype item = Item
  (name: string)
  (itype: string)
  (acceptedDataTypes: "string list")
  (acceptedCommandTypes: "string list")
  (getMembers: "item list")
  (getAllMembers: "item list")

datatype channel_kind = STATE | TRIGGER

datatype channel = Channel (kind: channel_kind)

text \<open>
  Host calls receive the JavaScript value as it is (\<open>None\<close> is \<open>null\<close>).
  \<^item> \<open>getItem\<close>: \<open>None\<close> means the registry throws \<open>ItemNotFoundException\<close>.
  \<^item> \<open>new_ThingUID\<close>, \<open>new_ChannelUID\<close>: \<open>None\<close> means the constructor throws
    \<open>IllegalArgumentException\<close>; otherwise the UID, as its string.
  \<^item> \<open>things_get\<close>, \<open>things_getChannel\<close>, \<open>parseState\<close>, \<open>parseCommand\<close>:
    \<open>None\<close> is the \<open>null\<close> they return.
  \<^item> \<open>ThingStatus\<close>: property lookup on the Java enum class by property name;
    \<open>None\<close> is \<open>undefined\<close>.
  \<^item> \<open>randomUUID k\<close>: the string of the \<open>k\<close>-th \<open>UUID.randomUUID()\<close> drawn.
\<close>

record host =
  getItems :: "string option \<Rightarrow> item list"
  getItem :: "string option \<Rightarrow> item option"
  parseState :: "string list \<Rightarrow> string \<Rightarrow> string option"
  parseCommand :: "string list \<Rightarrow> string \<Rightarrow> string option"
  new_ThingUID :: "string option \<Rightarrow> string option"
  things_get :: "string \<Rightarrow> string option"
  new_ChannelUID :: "string option \<Rightarrow> string option"
  things_getChannel :: "string \<Rightarrow> channel option"
  ThingStatus :: "string \<Rightarrow> string option"
  isValidExpression :: "string \<Rightarrow> bool"
  randomUUID :: "nat \<Rightarrow> string"

text \<open>What a call changes outside its arguments: the number of UUIDs drawn so far
  and the log.  \<open>Error_stacktrace e f\<close> stands for \<open>LOG.error(get_stacktrace(e, f))\<close>,
  whose text is rendered from the host's stack frames.\<close>

datatype js_error =
    RangeError string
  | TypeError
  | JavaException string
  | GenericError string

datatype log_entry =
    Trace string "string option list"
  | Warn string
  | Error_stacktrace js_error string

record world =
  uuids_drawn :: nat
  log :: "log_entry list"

definition LOG_trace :: "world \<Rightarrow> string \<Rightarrow> string option list \<Rightarrow> world" where
  "LOG_trace w fmt args = w\<lparr>log := log w @ [Trace fmt args]\<rparr>"

definition LOG_warn :: "world \<Rightarrow> string \<Rightarrow> world" where
  "LOG_warn w msg = w\<lparr>log := log w @ [Warn msg]\<rparr>"

definition LOG_error :: "world \<Rightarrow> js_error \<Rightarrow> string \<Rightarrow> world" where
  "LOG_error w e func_name = w\<lparr>log := log w @ [Error_stacktrace e func_name]\<rparr>"

text \<open>\<open>validate_uid\<close> as the callers see it: it draws the next UUID.\<close>

definition validate_uid_call :: "host \<Rightarrow> world \<Rightarrow> string option \<Rightarrow> string \<times> world" where
  "validate_uid_call h w uid =
     (validate_uid uid (randomUUID h (uuids_drawn w)),
      w\<lparr>uuids_drawn := Suc (uuids_drawn w)\<rparr>)"

section \<open>Trigger builders\<close>

datatype cfg_value = CStr string | CNum int | CNull

record trigger =
  trigger_id :: string
  typeUID :: string
  configuration :: "string \<rightharpoonup> cfg_value"

fun cfg_of :: "string option \<Rightarrow> cfg_value" where
  "cfg_of None = CNull"
| "cfg_of (Some s) = CStr s"

text \<open>\<open>if (x !== null) configuration.put(key, x)\<close>.  The value is one of the
  variables of \<open>when\<close>, which hold \<open>null\<close> (\<open>None\<close>) or a string; \<open>undefined\<close>, which the
  test would let through to \<open>put\<close>, is no value of this type.\<close>

fun put_unless_null :: "string \<Rightarrow> string option \<Rightarrow> (string \<rightharpoonup> cfg_value) \<Rightarrow> (string \<rightharpoonup> cfg_value)" where
  "put_unless_null k None m = m"
| "put_unless_null k (Some x) m = m(k \<mapsto> CStr x)"

text \<open>\<open>TriggerBuilder.create().withId(validate_uid(trigger_name)).withTypeUID(t)
  .withConfiguration(new Configuration(configuration)).build()\<close>.\<close>

definition build :: "host \<Rightarrow> world \<Rightarrow> string option \<Rightarrow> string \<Rightarrow> (string \<rightharpoonup> cfg_value) \<Rightarrow> trigger \<times> world" where
  "build h w trigger_name t c =
     (let (uid, w') = validate_uid_call h w trigger_name
      in (\<lparr>trigger_id = uid, typeUID = t, configuration = c\<rparr>, w'))"

definition ItemStateUpdateTrigger :: "host \<Rightarrow> world \<Rightarrow> string \<Rightarrow> string option \<Rightarrow> string option \<Rightarrow> trigger \<times> world" where
  "ItemStateUpdateTrigger h w item_name state trigger_name =
     build h w trigger_name ''core.ItemStateUpdateTrigger''
       (put_unless_null ''state'' state [''itemName'' \<mapsto> CStr item_name])"

definition ItemStateChangeTrigger :: "host \<Rightarrow> world \<Rightarrow> string \<Rightarrow> string option \<Rightarrow> string option \<Rightarrow> string option \<Rightarrow> trigger \<times> world" where
  "ItemStateChangeTrigger h w item_name previous_state state trigger_name =
     build h w trigger_name ''core.ItemStateChangeTrigger''
       (put_unless_null ''state'' state
         (put_unless_null ''previousState'' previous_state [''itemName'' \<mapsto> CStr item_name]))"

definition ItemCommandTrigger :: "host \<Rightarrow> world \<Rightarrow> string \<Rightarrow> string option \<Rightarrow> string option \<Rightarrow> trigger \<times> world" where
  "ItemCommandTrigger h w item_name command trigger_name =
     build h w trigger_name ''core.ItemCommandTrigger''
       (put_unless_null ''command'' command [''itemName'' \<mapsto> CStr item_name])"

definition ThingStatusUpdateTrigger :: "host \<Rightarrow> world \<Rightarrow> string option \<Rightarrow> string option \<Rightarrow> string option \<Rightarrow> trigger \<times> world" where
  "ThingStatusUpdateTrigger h w thing_uid status trigger_name =
     build h w trigger_name ''core.ThingStatusUpdateTrigger''
       (put_unless_null ''status'' status [''thingUID'' \<mapsto> cfg_of thing_uid])"

definition ThingStatusChangeTrigger :: "host \<Rightarrow> world \<Rightarrow> string option \<Rightarrow> string option \<Rightarrow> string option \<Rightarrow> string option \<Rightarrow> trigger \<times> world" where
  "ThingStatusChangeTrigger h w thing_uid previous_status status trigger_name =
     build h w trigger_name ''core.ThingStatusChangeTrigger''
       (put_unless_null ''status'' status
         (put_unless_null ''previousStatus'' previous_status [''thingUID'' \<mapsto> cfg_of thing_uid]))"

definition ChannelEventTrigger :: "host \<Rightarrow> world \<Rightarrow> string option \<Rightarrow> string option \<Rightarrow> string option \<Rightarrow> trigger \<times> world" where
  "ChannelEventTrigger h w channel_uid event trigger_name =
     build h w trigger_name ''core.ChannelEventTrigger''
       (put_unless_null ''event'' event [''channelUID'' \<mapsto> cfg_of channel_uid])"

text \<open>\<open>event_types\<close> is an array of names, one name, or \<open>undefined\<close> (an
  \<open>event_names\<close> lookup that misses).\<close>

datatype event_types = Names "string list" | One_name string | Undefined_name

fun event_types_value :: "event_types \<Rightarrow> cfg_value" where
  "event_types_value (Names ns) = CStr (join '','' ns)"
| "event_types_value (One_name n) = CStr n"
| "event_types_value Undefined_name = CNull"

definition GenericEventTrigger :: "host \<Rightarrow> world \<Rightarrow> string \<Rightarrow> event_types \<Rightarrow> string option \<Rightarrow> trigger \<times> world" where
  "GenericEventTrigger h w event_source event_types trigger_name =
     build h w trigger_name ''core.GenericEventTrigger''
       [''eventTopic'' \<mapsto> CStr ''openhab/*'',
        ''eventSource'' \<mapsto> CStr (''openhab/'' @ event_source @ ''/''),
        ''eventTypes'' \<mapsto> event_types_value event_types]"

definition ItemEventTrigger :: "host \<Rightarrow> world \<Rightarrow> event_types \<Rightarrow> string option \<Rightarrow> string option \<Rightarrow> trigger \<times> world" where
  "ItemEventTrigger h w event_types item_name trigger_name =
     GenericEventTrigger h w
       (''items'' @ (if truthy item_name then ''/'' @ str_of item_name else []))
       event_types trigger_name"

definition ThingEventTrigger :: "host \<Rightarrow> world \<Rightarrow> event_types \<Rightarrow> string option \<Rightarrow> string option \<Rightarrow> trigger \<times> world" where
  "ThingEventTrigger h w event_types thing_uid trigger_name =
     GenericEventTrigger h w
       (''things'' @ (if truthy thing_uid then ''/'' @ str_of thing_uid else []))
       event_types trigger_name"

definition CronTrigger :: "host \<Rightarrow> world \<Rightarrow> string option \<Rightarrow> string option \<Rightarrow> trigger \<times> world" where
  "CronTrigger h w cron_expression trigger_name =
     build h w trigger_name ''timer.GenericCronTrigger''
       [''cronExpression'' \<mapsto> cfg_of cron_expression]"

definition StartupTrigger :: "host \<Rightarrow> world \<Rightarrow> string option \<Rightarrow> trigger \<times> world" where
  "StartupTrigger h w trigger_name =
     build h w trigger_name ''core.SystemStartlevelTrigger'' [''startlevel'' \<mapsto> CNum 20]"

section \<open>The \<open>when\<close> decorator\<close>

subsection \<open>The callback object and the closure variables\<close>

text \<open>
  The decorated function object.  \<open>triggers\<close> is \<open>None\<close> while the attribute is
  absent; a \<open>None\<close> entry of the list is the \<open>null\<close> marker.  Every other attribute
  of the object lives in the record's extension.
\<close>

record callback =
  triggers :: "trigger option list option"

definition add_trigger :: "'a callback_scheme \<Rightarrow> trigger option \<Rightarrow> 'a callback_scheme" where
  "add_trigger func trigger =
     (let func1 = (if triggers func = None then func\<lparr>triggers := Some []\<rparr> else func)
      in func1\<lparr>triggers := map_option (\<lambda>ts. ts @ [trigger]) (triggers func1)\<rparr>)"

text \<open>The local variables of one \<open>when\<close> call, which the returned function closes
  over.\<close>

record vars =
  input_list :: "string list"
  target_type :: "string option"
  trigger_target :: "string option"
  trigger_type :: "string option"
  trigger_name :: "string option"
  old_state :: "string option"
  new_state :: "string option"

abbreviation apostrophe :: string where
  "apostrophe \<equiv> [CHR 0x27]"

definition lifecycle :: "string option \<Rightarrow> bool" where
  "lifecycle t = (t \<in> set [Some ''added'', Some ''removed'', Some ''modified''])"

subsection \<open>The builder strategies\<close>

text \<open>
  One iteration of \<open>group_members.forEach\<close> in \<open>item_trigger\<close>.  The source assigns
  the closure variable \<open>trigger_name\<close> here before it reads it, so the value left by
  the parse is dead in this strategy and the model keeps the new name local.
\<close>

definition item_trigger_member :: "host \<Rightarrow> vars \<Rightarrow> 'a callback_scheme \<times> world \<Rightarrow> item
    \<Rightarrow> js_error + ('a callback_scheme \<times> world)" where
  "item_trigger_member h v fw member =
     (case trigger_type v of
        None \<Rightarrow> Inl TypeError
      | Some tt \<Rightarrow>
          (let (func, w) = fw;
               trigger_name1 =
                 ''Item-'' @ name member @ ''-'' @ replace_first (CHR '' '') ''-'' tt
                 @ (case old_state v of Some s \<Rightarrow> ''-from-'' @ s | None \<Rightarrow> [])
                 @ (if new_state v \<noteq> None \<and> tt = ''changed'' then ''-to-'' else [])
                 @ (if new_state v \<noteq> None \<and> tt = ''received update'' then ''-'' else [])
                 @ (case new_state v of Some s \<Rightarrow> s | None \<Rightarrow> []);
               (trigger_name2, w1) = validate_uid_call h w (Some trigger_name1);
               (trigger, w2) =
                 (if tt = ''received update''
                  then ItemStateUpdateTrigger h w1 (name member) (new_state v) (Some trigger_name2)
                  else if tt = ''received command''
                  then ItemCommandTrigger h w1 (name member) (new_state v) (Some trigger_name2)
                  else ItemStateChangeTrigger h w1 (name member) (old_state v) (new_state v)
                         (Some trigger_name2));
               w3 = LOG_trace w2 (''when: Created item_trigger: '{}'' @ apostrophe) [Some trigger_name2]
           in Inr (add_trigger func (Some trigger), w3)))"

fun item_trigger_forEach :: "host \<Rightarrow> vars \<Rightarrow> item list \<Rightarrow> 'a callback_scheme \<times> world
    \<Rightarrow> js_error + ('a callback_scheme \<times> world)" where
  "item_trigger_forEach h v [] fw = Inr fw"
| "item_trigger_forEach h v (member # members) fw =
     (case item_trigger_member h v fw member of
        Inl e \<Rightarrow> Inl e
      | Inr fw' \<Rightarrow> item_trigger_forEach h v members fw')"

text \<open>\<open>item.getMembers()\<close> and \<open>item.getAllMembers()\<close> exist on Group items only;
  on any other item the call is a \<open>TypeError\<close>.\<close>

definition group_members_of :: "vars \<Rightarrow> item \<Rightarrow> js_error + item list" where
  "group_members_of v item =
     (if target_type v = Some ''Member of''
      then (if itype item = ''Group'' then Inr (getMembers item) else Inl TypeError)
      else if target_type v = Some ''Descendent of''
      then (if itype item = ''Group'' then Inr (getAllMembers item) else Inl TypeError)
      else Inr [item])"

definition item_trigger :: "host \<Rightarrow> world \<Rightarrow> vars \<Rightarrow> 'a callback_scheme
    \<Rightarrow> js_error + ('a callback_scheme \<times> world)" where
  "item_trigger h w v func =
     (case getItem h (trigger_target v) of
        None \<Rightarrow> Inl (JavaException ''ItemNotFoundException'')
      | Some item \<Rightarrow>
          (case group_members_of v item of
             Inl e \<Rightarrow> Inl e
           | Inr group_members \<Rightarrow> item_trigger_forEach h v group_members (func, w)))"

text \<open>\<open>trigger_target || null\<close>.\<close>

definition or_null :: "string option \<Rightarrow> string option" where
  "or_null x = (if truthy x then x else None)"

text \<open>The lookup \<open>event_names[trigger_type]\<close> in the object literal of
  \<open>item_event_trigger\<close> (and below of \<open>thing_event_trigger\<close>).  \<open>when\<close> returns these
  two functions for the three lifecycle trigger types only; for any other key the
  model takes the lookup to miss.\<close>

definition item_event_names :: "string option \<Rightarrow> event_types" where
  "item_event_names t =
     (if t = Some ''added'' then One_name ''ItemAddedEvent''
      else if t = Some ''removed'' then One_name ''ItemRemovedEvent''
      else if t = Some ''modified'' then One_name ''ItemUpdatedEvent''
      else Undefined_name)"

definition item_event_trigger :: "host \<Rightarrow> world \<Rightarrow> vars \<Rightarrow> 'a callback_scheme
    \<Rightarrow> 'a callback_scheme \<times> world" where
  "item_event_trigger h w v func =
     (let (trigger, w1) = ItemEventTrigger h w (item_event_names (trigger_type v))
                            (or_null (trigger_target v)) (trigger_name v);
          w2 = LOG_trace w1 (''when: Created item_event_trigger: '{}'' @ apostrophe) [trigger_name v]
      in (add_trigger func (Some trigger), w2))"

definition cron_trigger :: "host \<Rightarrow> world \<Rightarrow> vars \<Rightarrow> 'a callback_scheme
    \<Rightarrow> 'a callback_scheme \<times> world" where
  "cron_trigger h w v func =
     (let (trigger, w1) = CronTrigger h w (trigger_type v) (trigger_name v);
          w2 = LOG_trace w1 (''when: Created cron_trigger: '{}'' @ apostrophe) [trigger_name v]
      in (add_trigger func (Some trigger), w2))"

definition system_trigger :: "host \<Rightarrow> world \<Rightarrow> vars \<Rightarrow> 'a callback_scheme
    \<Rightarrow> 'a callback_scheme \<times> world" where
  "system_trigger h w v func =
     (let (trigger, w1) = StartupTrigger h w (trigger_name v);
          w2 = LOG_trace w1 (''when: Created system_trigger: '{}'' @ apostrophe) [trigger_name v]
      in (add_trigger func (Some trigger), w2))"

definition thing_trigger :: "host \<Rightarrow> world \<Rightarrow> vars \<Rightarrow> 'a callback_scheme
    \<Rightarrow> 'a callback_scheme \<times> world" where
  "thing_trigger h w v func =
     (let (trigger, w1) =
            (if new_state v \<noteq> None \<or> old_state v \<noteq> None
             then (if trigger_type v = Some ''changed''
                   then ThingStatusChangeTrigger h w (trigger_target v) (old_state v)
                          (new_state v) (trigger_name v)
                   else ThingStatusUpdateTrigger h w (trigger_target v) (new_state v)
                          (trigger_name v))
             else ThingEventTrigger h w
                    (One_name (if trigger_type v = Some ''changed''
                               then ''ThingStatusInfoChangedEvent''
                               else ''ThingStatusInfoEvent''))
                    (trigger_target v) (trigger_name v));
          w2 = LOG_trace w1 (''when: Created thing_trigger: '{}'' @ apostrophe) [trigger_name v]
      in (add_trigger func (Some trigger), w2))"

definition thing_event_names :: "string option \<Rightarrow> event_types" where
  "thing_event_names t =
     (if t = Some ''added'' then One_name ''ThingAddedEvent''
      else if t = Some ''removed'' then One_name ''ThingRemovedEvent''
      else if t = Some ''modified'' then One_name ''ThingUpdatedEvent''
      else Undefined_name)"

definition thing_event_trigger :: "host \<Rightarrow> world \<Rightarrow> vars \<Rightarrow> 'a callback_scheme
    \<Rightarrow> 'a callback_scheme \<times> world" where
  "thing_event_trigger h w v func =
     (let (trigger, w1) = ThingEventTrigger h w (thing_event_names (trigger_type v))
                            (or_null (trigger_target v)) (trigger_name v);
          w2 = LOG_trace w1 (''when: Created thing_event_trigger: '{}'' @ apostrophe) [trigger_name v]
      in (add_trigger func (Some trigger), w2))"

definition channel_trigger :: "host \<Rightarrow> world \<Rightarrow> vars \<Rightarrow> 'a callback_scheme
    \<Rightarrow> 'a callback_scheme \<times> world" where
  "channel_trigger h w v func =
     (let (trigger, w1) = ChannelEventTrigger h w (trigger_target v) (new_state v)
                            (trigger_name v);
          w2 = LOG_trace w1 (''when: Created channel_trigger: '{}'' @ apostrophe) [trigger_name v]
      in (add_trigger func (Some trigger), w2))"

definition bad_trigger :: "world \<Rightarrow> 'a callback_scheme \<Rightarrow> 'a callback_scheme \<times> world" where
  "bad_trigger w func = (add_trigger func None, w)"

text \<open>
  What \<open>when\<close> returns: one of its inner functions together with the variables it
  closes over, or \<open>undefined\<close> when the final \<open>if\<close> chain falls through.  \<open>call\<close>
  applies the returned value to a callback object.
\<close>

datatype builder =
    Item_trigger vars
  | Item_event_trigger vars
  | Cron_trigger vars
  | System_trigger vars
  | Thing_trigger vars
  | Thing_event_trigger vars
  | Channel_trigger vars
  | Bad_trigger
  | Undefined_builder

fun call :: "host \<Rightarrow> world \<Rightarrow> builder \<Rightarrow> 'a callback_scheme
    \<Rightarrow> js_error + ('a callback_scheme \<times> world)" where
  "call h w (Item_trigger v) func = item_trigger h w v func"
| "call h w (Item_event_trigger v) func = Inr (item_event_trigger h w v func)"
| "call h w (Cron_trigger v) func = Inr (cron_trigger h w v func)"
| "call h w (System_trigger v) func = Inr (system_trigger h w v func)"
| "call h w (Thing_trigger v) func = Inr (thing_trigger h w v func)"
| "call h w (Thing_event_trigger v) func = Inr (thing_event_trigger h w v func)"
| "call h w (Channel_trigger v) func = Inr (channel_trigger h w v func)"
| "call h w Bad_trigger func = Inr (bad_trigger w func)"
| "call h w Undefined_builder func = Inl TypeError"

subsection \<open>The grammar state machine\<close>

definition quoted :: "string \<Rightarrow> string" where
  "quoted s = apostrophe @ s @ apostrophe"

text \<open>\<open>input_list[0]\<close>: \<open>None\<close> is \<open>undefined\<close>, which concatenates as the text
  \<open>undefined\<close>.\<close>

fun element0 :: "string list \<Rightarrow> string option" where
  "element0 [] = None"
| "element0 (x # xs) = Some x"

fun str_of_element :: "string option \<Rightarrow> string" where
  "str_of_element None = ''undefined''"
| "str_of_element (Some s) = s"

text \<open>The four branches of the loop body, one per slot still to fill.
  \<open>input_list.splice(0, n)\<close> removes and returns the first \<open>n\<close> tokens.\<close>

definition parse_target_type :: "vars \<Rightarrow> vars" where
  "parse_target_type v =
     (let il = input_list v in
      if join '' '' (take 2 il) \<in> set [''Member of'', ''Descendent of'']
      then v\<lparr>input_list := drop 2 il, target_type := Some (join '' '' (take 2 il))\<rparr>
      else v\<lparr>input_list := drop 1 il, target_type := Some (join [] (take 1 il))\<rparr>)"

definition parse_trigger_target :: "vars \<Rightarrow> vars" where
  "parse_trigger_target v =
     (let il = input_list v in
      if target_type v = Some ''System'' \<and> length il > 1
      then (if join '' '' (take 2 il) = ''shuts down''
            then v\<lparr>input_list := drop 2 il, trigger_target := Some (join '' '' (take 2 il))\<rparr>
            else v\<lparr>input_list := drop 1 il, trigger_target := Some (join [] (take 1 il))\<rparr>)
      else if target_type v \<in> set [Some ''Item'', Some ''Thing''] \<and> length il = 1
      then v\<lparr>trigger_target := Some []\<rparr>
      else v\<lparr>input_list := drop 1 il, trigger_target := Some (join [] (take 1 il))\<rparr>)"

text \<open>
  The trigger type branch.  Its first error concatenates \<open>trigger_type\<close>, which is
  \<open>null\<close> there, where the other errors concatenate \<open>target_type\<close>.  The last error
  of the source chooses its text by \<open>input_list[0] === null\<close>, which is false for every
  array element and for \<open>undefined\<close>, so only the text of the other alternative is
  modelled.
\<close>

definition invalid_for_target_type :: "string \<Rightarrow> string \<Rightarrow> string option \<Rightarrow> js_error" where
  "invalid_for_target_type expr keyword t =
     RangeError (''when: '' @ quoted expr @ '' could not be parsed. ''
       @ quoted keyword @ '' is invalid for target_type '' @ quoted (str_of t))"

definition parse_trigger_type :: "host \<Rightarrow> string \<Rightarrow> vars \<Rightarrow> js_error + vars" where
  "parse_trigger_type h expr v =
     (let il = input_list v in
      if join '' '' (take 2 il) = ''received update''
      then (if target_type v \<in> set [Some ''Item'', Some ''Thing'', Some ''Member of'', Some ''Descendent of'']
            then Inr (v\<lparr>input_list := drop 2 il, trigger_type := Some (join '' '' (take 2 il))\<rparr>)
            else Inl (invalid_for_target_type expr ''received update'' (trigger_type v)))
      else if join '' '' (take 2 il) = ''received command''
      then (if target_type v \<in> set [Some ''Item'', Some ''Member of'', Some ''Descendent of'']
            then Inr (v\<lparr>input_list := drop 2 il, trigger_type := Some (join '' '' (take 2 il))\<rparr>)
            else Inl (invalid_for_target_type expr ''received command'' (target_type v)))
      else if element0 il = Some ''changed''
      then (if target_type v \<in> set [Some ''Item'', Some ''Thing'', Some ''Member of'', Some ''Descendent of'']
            then Inr (v\<lparr>input_list := drop 1 il, trigger_type := Some (join [] (take 1 il))\<rparr>)
            else Inl (invalid_for_target_type expr ''changed'' (target_type v)))
      else if element0 il = Some ''triggered''
      then (if target_type v = Some ''Channel''
            then Inr (v\<lparr>input_list := drop 1 il, trigger_type := Some (join [] (take 1 il))\<rparr>)
            else Inl (invalid_for_target_type expr ''triggered'' (target_type v)))
      else if trigger_target v = Some ''cron''
      then (if target_type v = Some ''Time''
            then (if \<not> isValidExpression h (join '' '' il)
                  then Inl (RangeError (''when: '' @ quoted expr @ '' could not be parsed. ''
                         @ quoted (join '' '' il) @ '' is not a valid ''
                         @ ''cron expression. See ''
                         @ ''http://www.quartz-scheduler.org/documentation/quartz-2.1.x/tutorials/tutorial-lesson-06''))
                  else Inr (v\<lparr>input_list := [], trigger_type := Some (join '' '' il)\<rparr>))
            else Inl (invalid_for_target_type expr ''cron'' (target_type v)))
      else if element0 il \<in> set [Some ''added'', Some ''removed'', Some ''modified'']
      then (if target_type v \<in> set [Some ''Item'', Some ''Thing'']
            then Inr (v\<lparr>input_list := drop 1 il, trigger_type := Some (join [] (take 1 il))\<rparr>)
            else Inl (invalid_for_target_type expr (str_of_element (element0 il)) (target_type v)))
      else Inl (RangeError (''when: '' @ quoted expr
             @ '' could not be parsed because the trigger_type ''
             @ quoted (str_of_element (element0 il)) @ '' is invalid'')))"

definition parse_qualifier :: "string \<Rightarrow> vars \<Rightarrow> js_error + vars" where
  "parse_qualifier expr v =
     (let il = input_list v in
      if old_state v = None \<and> trigger_type v = Some ''changed'' \<and> element0 il = Some ''from''
      then Inr (v\<lparr>input_list := drop 1 (drop 1 il), old_state := Some (join [] (take 1 (drop 1 il)))\<rparr>)
      else if new_state v = None \<and> trigger_type v = Some ''changed'' \<and> element0 il = Some ''to''
      then Inr (v\<lparr>input_list := drop 1 (drop 1 il), new_state := Some (join [] (take 1 (drop 1 il)))\<rparr>)
      else if new_state v = None
              \<and> trigger_type v \<in> set [Some ''received update'', Some ''received command'']
      then Inr (v\<lparr>input_list := drop 1 il, new_state := Some (join [] (take 1 il))\<rparr>)
      else if new_state v = None \<and> target_type v = Some ''Channel''
      then Inr (v\<lparr>input_list := drop 1 il, new_state := Some (join [] (take 1 il))\<rparr>)
      else if il \<noteq> []
      then Inl (RangeError (''when: '' @ quoted expr @ '' could not be parsed. ''
             @ quoted (join '' '' il) @ '' is invalid for ''
             @ quoted (str_of (target_type v) @ '' '' @ str_of (trigger_target v) @ '' ''
                       @ str_of (trigger_type v))))
      else Inr v)"

definition parse_step :: "host \<Rightarrow> string \<Rightarrow> vars \<Rightarrow> js_error + vars" where
  "parse_step h expr v =
     (if target_type v = None then Inr (parse_target_type v)
      else if trigger_target v = None then Inr (parse_trigger_target v)
      else if trigger_type v = None then parse_trigger_type h expr v
      else parse_qualifier expr v)"

text \<open>\<open>while (input_list.length) { ... }\<close>\<close>

function parse_loop :: "host \<Rightarrow> string \<Rightarrow> vars \<Rightarrow> js_error + vars" where
  "parse_loop h expr v =
     (if input_list v = [] then Inr v
      else (case parse_step h expr v of
              Inl e \<Rightarrow> Inl e
            | Inr v' \<Rightarrow> parse_loop h expr v'))"
  by pat_completeness auto
termination
proof (relation "measure (\<lambda>(h, expr, v).
          2 * length (input_list v) + (if trigger_target v = None then 1 else 0))")
  show "wf (measure (\<lambda>(h :: host, expr :: string, v :: vars).
          2 * length (input_list v) + (if trigger_target v = None then 1 else 0)))"
    by simp
next
  fix h :: host and expr :: string and v v' :: vars
  assume nonempty: "input_list v \<noteq> []" and step: "parse_step h expr v = Inr v'"
  have pos: "0 < length (input_list v)"
    using nonempty by simp
  have "2 * length (input_list v') + (if trigger_target v' = None then 1 else 0)
      < 2 * length (input_list v) + (if trigger_target v = None then 1 else (0::nat))"
  proof (cases "target_type v = None")
    case True
    then have "v' = parse_target_type v"
      using step by (auto simp: parse_step_def)
    then show ?thesis
      using pos by (auto simp: parse_target_type_def Let_def)
  next
    case tt: False
    show ?thesis
    proof (cases "trigger_target v = None")
      case True
      then have "v' = parse_trigger_target v"
        using step tt by (auto simp: parse_step_def)
      then show ?thesis
        using pos True by (auto simp: parse_trigger_target_def Let_def)
    next
      case tg: False
      show ?thesis
      proof (cases "trigger_type v = None")
        case True
        then have "parse_trigger_type h expr v = Inr v'"
          using step tt tg by (auto simp: parse_step_def)
        then have "trigger_target v' = trigger_target v
            \<and> length (input_list v') < length (input_list v)"
          using pos unfolding parse_trigger_type_def Let_def
          by (simp split: if_splits del: set_simps) auto
        then show ?thesis by simp
      next
        case False
        then have "parse_qualifier expr v = Inr v'"
          using step tt tg by (auto simp: parse_step_def)
        then have "trigger_target v' = trigger_target v
            \<and> length (input_list v') < length (input_list v)"
          using pos unfolding parse_qualifier_def Let_def
          by (simp split: if_splits del: set_simps) auto
        then show ?thesis by simp
      qed
    qed
  qed
  then show "((h, expr, v'), (h, expr, v)) \<in> measure (\<lambda>(h, expr, v).
          2 * length (input_list v) + (if trigger_target v = None then 1 else 0))"
    by simp
qed

declare parse_loop.simps [simp del]

definition initial_vars :: "string list \<Rightarrow> vars" where
  "initial_vars il =
     \<lparr>input_list = il, target_type = None, trigger_target = None, trigger_type = None,
      trigger_name = None, old_state = None, new_state = None\<rparr>"

text \<open>The parsing part of \<open>when\<close>: from \<open>expr.split(" ")\<close> to the end of the
  \<open>if (input_list.length > 1) ... else ...\<close> statement.\<close>

definition parse_expression :: "host \<Rightarrow> string \<Rightarrow> js_error + vars" where
  "parse_expression h expr =
     (let v = initial_vars (split (CHR '' '') expr) in
      if length (input_list v) > 1 then parse_loop h expr v
      else Inr (v\<lparr>target_type := Some ''Item'', trigger_target := Some expr,
                  trigger_type := Some ''changed''\<rparr>))"

subsection \<open>Validation of the parsed slots\<close>

text \<open>\<open>x === []\<close> compares \<open>x\<close> with an array created by the literal itself:
  strict equality of objects is identity, so the comparison is false for every \<open>x\<close>.\<close>

definition strict_equals_new_array :: "'a \<Rightarrow> bool" where
  "strict_equals_new_array x = False"

text \<open>
  One link of the \<open>if ... else if ...\<close> chain.  The condition is \<open>Inl e\<close> when a
  host call inside it throws \<open>e\<close>; a true condition throws the link's error; a false
  one falls to the rest of the chain.
\<close>

definition else_if :: "js_error + bool \<Rightarrow> js_error \<Rightarrow> js_error + unit \<Rightarrow> js_error + unit" where
  "else_if condition thrown rest =
     (case condition of
        Inl e \<Rightarrow> Inl e
      | Inr b \<Rightarrow> if b then Inl thrown else rest)"

text \<open>\<open>itemRegistry.getItem(trigger_target)\<close> followed by a test of the item.\<close>

definition with_item :: "host \<Rightarrow> string option \<Rightarrow> (item \<Rightarrow> bool) \<Rightarrow> js_error + bool" where
  "with_item h target test =
     (case getItem h target of
        None \<Rightarrow> Inl (JavaException ''ItemNotFoundException'')
      | Some item \<Rightarrow> Inr (test item))"

definition could_not_be_parsed :: "string \<Rightarrow> string" where
  "could_not_be_parsed expr = ''when: '' @ quoted expr @ '' could not be parsed''"

definition target_type_invalid :: "vars \<Rightarrow> js_error + bool" where
  "target_type_invalid v =
     Inr (target_type v = None
          \<or> target_type v \<notin> set [Some ''Item'', Some ''Member of'', Some ''Descendent of'',
                Some ''Thing'', Some ''Channel'', Some ''System'', Some ''Time'',
                Some ''Item Event''])"

definition trigger_type_missing :: "vars \<Rightarrow> js_error + bool" where
  "trigger_type_missing v =
     Inr (target_type v \<noteq> Some ''System'' \<and> \<not> lifecycle (trigger_type v)
          \<and> trigger_type v = None)"

definition item_not_in_registry :: "host \<Rightarrow> vars \<Rightarrow> js_error + bool" where
  "item_not_in_registry h v =
     Inr (target_type v \<in> set [Some ''Item'', Some ''Member of'', Some ''Descendent of'']
          \<and> \<not> lifecycle (trigger_type v)
          \<and> strict_equals_new_array (getItems h (trigger_target v)))"

definition not_a_group :: "host \<Rightarrow> vars \<Rightarrow> js_error + bool" where
  "not_a_group h v =
     (if target_type v \<in> set [Some ''Member of'', Some ''Descendent of'']
      then with_item h (trigger_target v) (\<lambda>item. itype item \<noteq> ''Group'')
      else Inr False)"

definition old_state_invalid :: "host \<Rightarrow> vars \<Rightarrow> js_error + bool" where
  "old_state_invalid h v =
     (case old_state v of
        None \<Rightarrow> Inr False
      | Some s \<Rightarrow>
          if target_type v = Some ''Item'' \<and> \<not> lifecycle (trigger_type v)
             \<and> trigger_type v = Some ''changed''
          then with_item h (trigger_target v)
                 (\<lambda>item. parseState h (acceptedDataTypes item) s = None)
          else Inr False)"

definition new_state_invalid :: "host \<Rightarrow> vars \<Rightarrow> js_error + bool" where
  "new_state_invalid h v =
     (case new_state v of
        None \<Rightarrow> Inr False
      | Some s \<Rightarrow>
          if target_type v = Some ''Item'' \<and> \<not> lifecycle (trigger_type v)
             \<and> trigger_type v \<in> set [Some ''changed'', Some ''received update'']
          then with_item h (trigger_target v)
                 (\<lambda>item. parseState h (acceptedDataTypes item) s = None)
          else Inr False)"

text \<open>The source tests \<open>TypeParser.parseCommand(...) !== null\<close> here.\<close>

definition command_invalid :: "host \<Rightarrow> vars \<Rightarrow> js_error + bool" where
  "command_invalid h v =
     (case new_state v of
        None \<Rightarrow> Inr False
      | Some s \<Rightarrow>
          if target_type v = Some ''Item'' \<and> \<not> lifecycle (trigger_type v)
             \<and> trigger_type v = Some ''received command''
          then with_item h (trigger_target v)
                 (\<lambda>item. parseCommand h (acceptedCommandTypes item) s \<noteq> None)
          else Inr False)"

definition thing_not_in_registry :: "host \<Rightarrow> vars \<Rightarrow> js_error + bool" where
  "thing_not_in_registry h v =
     (if target_type v = Some ''Thing'' \<and> \<not> lifecycle (trigger_type v)
      then (case new_ThingUID h (trigger_target v) of
              None \<Rightarrow> Inl (JavaException ''IllegalArgumentException'')
            | Some uid \<Rightarrow> Inr (things_get h uid = None))
      else Inr False)"

text \<open>The source reads the properties named \<open>old_state\<close> and \<open>new_state\<close> of the
  \<open>ThingStatus\<close> class: \<open>ThingStatus.old_state === undefined\<close>.\<close>

definition old_status_invalid :: "host \<Rightarrow> vars \<Rightarrow> js_error + bool" where
  "old_status_invalid h v =
     Inr (target_type v = Some ''Thing'' \<and> \<not> lifecycle (trigger_type v)
          \<and> old_state v \<noteq> None \<and> ThingStatus h ''old_state'' = None)"

definition new_status_invalid :: "host \<Rightarrow> vars \<Rightarrow> js_error + bool" where
  "new_status_invalid h v =
     Inr (target_type v = Some ''Thing'' \<and> \<not> lifecycle (trigger_type v)
          \<and> new_state v \<noteq> None \<and> ThingStatus h ''new_state'' = None)"

definition channel_missing :: "host \<Rightarrow> vars \<Rightarrow> js_error + bool" where
  "channel_missing h v =
     (if target_type v = Some ''Channel''
      then (case new_ChannelUID h (trigger_target v) of
              None \<Rightarrow> Inl (JavaException ''IllegalArgumentException'')
            | Some uid \<Rightarrow> Inr (things_getChannel h uid = None))
      else Inr False)"

definition not_a_trigger_channel :: "host \<Rightarrow> vars \<Rightarrow> js_error + bool" where
  "not_a_trigger_channel h v =
     (if target_type v = Some ''Channel''
      then (case new_ChannelUID h (trigger_target v) of
              None \<Rightarrow> Inl (JavaException ''IllegalArgumentException'')
            | Some uid \<Rightarrow>
                (case things_getChannel h uid of
                   None \<Rightarrow> Inl TypeError
                 | Some c \<Rightarrow> Inr (kind c \<noteq> TRIGGER)))
      else Inr False)"

definition system_target_invalid :: "vars \<Rightarrow> js_error + bool" where
  "system_target_invalid v =
     Inr (target_type v = Some ''System'' \<and> trigger_target v \<noteq> Some ''started'')"

text \<open>The validation chain of \<open>when\<close>, in the source's order.\<close>

definition validate :: "host \<Rightarrow> string \<Rightarrow> vars \<Rightarrow> js_error + unit" where
  "validate h expr v =
     else_if (target_type_invalid v)
       (RangeError (could_not_be_parsed expr @ ''. ''
          @ ''target_type is missing or invalid. Valid target_type values are: ''
          @ ''Item, Member of, Descendent of, Thing, Channel, System, and Time.''))
    (else_if (trigger_type_missing v)
       (RangeError (could_not_be_parsed expr @ '' because trigger_type cannot be null''))
    (else_if (item_not_in_registry h v)
       (RangeError (could_not_be_parsed expr @ '' because Item ''
          @ quoted (str_of (trigger_target v)) @ '' is not in the ItemRegistry''))
    (else_if (not_a_group h v)
       (RangeError (could_not_be_parsed expr @ '' because ''
          @ quoted (str_of (target_type v)) @ '' was specified, but ''
          @ quoted (str_of (trigger_target v)) @ '' is not a group''))
    (else_if (old_state_invalid h v)
       (RangeError (could_not_be_parsed expr @ '' because ''
          @ quoted (str_of (old_state v)) @ '' is not a valid state for ''
          @ quoted (str_of (trigger_target v))))
    (else_if (new_state_invalid h v)
       (RangeError (could_not_be_parsed expr @ '' because ''
          @ quoted (str_of (new_state v)) @ '' is not a valid state for ''
          @ quoted (str_of (trigger_target v))))
    (else_if (command_invalid h v)
       (RangeError (could_not_be_parsed expr @ '' because ''
          @ quoted (str_of (new_state v)) @ '' is not a valid command for ''
          @ quoted (str_of (trigger_target v))))
    (else_if (thing_not_in_registry h v)
       (RangeError (could_not_be_parsed expr @ '' because Thing ''
          @ quoted (str_of (trigger_target v)) @ '' is not in the ThingRegistry''))
    (else_if (old_status_invalid h v)
       (RangeError (''when: '' @ quoted (str_of (old_state v)) @ '' is not a valid Thing status''))
    (else_if (new_status_invalid h v)
       (RangeError (''when: '' @ quoted (str_of (new_state v)) @ '' is not a valid Thing status''))
    (else_if (channel_missing h v)
       (RangeError (could_not_be_parsed expr @ '' because Channel ''
          @ quoted (str_of (trigger_target v)) @ '' does not exist''))
    (else_if (not_a_trigger_channel h v)
       (RangeError (could_not_be_parsed expr @ '' because ''
          @ quoted (str_of (trigger_target v)) @ '' is not a trigger Channel''))
    (else_if (system_target_invalid v)
       (RangeError (could_not_be_parsed expr @ ''. trigger_target ''
          @ quoted (str_of (trigger_target v)) @ '' is invalid for target_type 'System'. ''
          @ ''The only valid trigger_type value is '' @ quoted ''started''))
    (Inr ())))))))))))))"

subsection \<open>\<open>when\<close>\<close>

text \<open>The final \<open>if\<close> chain, which picks the inner function to return.\<close>

definition select_builder :: "vars \<Rightarrow> builder" where
  "select_builder v =
     (if target_type v \<in> set [Some ''Item'', Some ''Member of'', Some ''Descendent of'']
      then (if lifecycle (trigger_type v) then Item_event_trigger v else Item_trigger v)
      else if target_type v = Some ''Thing''
      then (if lifecycle (trigger_type v) then Thing_event_trigger v else Thing_trigger v)
      else if target_type v = Some ''Channel'' then Channel_trigger v
      else if target_type v = Some ''System'' then System_trigger v
      else if target_type v = Some ''Time'' then Cron_trigger v
      else Undefined_builder)"

text \<open>\<open>trigger_name || expr\<close>.\<close>

definition or_else :: "string option \<Rightarrow> string \<Rightarrow> string option" where
  "or_else x y = (if truthy x then x else Some y)"

text \<open>The body of the \<open>try\<close> block.\<close>

definition when_try :: "host \<Rightarrow> world \<Rightarrow> string \<Rightarrow> js_error + (builder \<times> world)" where
  "when_try h w expr =
     (case parse_expression h expr of
        Inl e \<Rightarrow> Inl e
      | Inr v \<Rightarrow>
          (case validate h expr v of
             Inl e \<Rightarrow> Inl e
           | Inr _ \<Rightarrow>
               (let w1 = LOG_trace w
                      (''when: expr='{}', target_type='{}', trigger_target='{}', ''
                       @ ''trigger_type='{}', old_state='{}', new_state='{}'' @ apostrophe)
                      [Some expr, target_type v, trigger_target v, trigger_type v,
                       old_state v, new_state v];
                    (uid, w2) = validate_uid_call h w1 (or_else (trigger_name v) expr)
                in Inr (select_builder (v\<lparr>trigger_name := Some uid\<rparr>), w2))))"

text \<open>
  \<open>when(expr)\<close>: the \<open>try\<close> block with its \<open>catch\<close>.  A \<open>RangeError\<close> is logged as
  a warning and \<open>bad_trigger\<close> is returned; any other error is logged with its stack
  trace and a generic \<open>Error\<close> is thrown.
\<close>

definition "when" :: "host \<Rightarrow> world \<Rightarrow> string \<Rightarrow> (js_error + builder) \<times> world" where
  "when h w expr =
     (case when_try h w expr of
        Inr (b, w') \<Rightarrow> (Inr b, w')
      | Inl (RangeError message) \<Rightarrow> (Inr Bad_trigger, LOG_warn w message)
      | Inl e \<Rightarrow>
          (Inl (GenericError ''log_traceback caught an error (see the stack trace for details)''),
           LOG_error w e ''when''))"

text \<open>\<open>when(expr)(func)\<close>, as the documentation of \<open>when\<close> uses it.\<close>

definition when_applied :: "host \<Rightarrow> world \<Rightarrow> string \<Rightarrow> 'a callback_scheme
    \<Rightarrow> js_error + ('a callback_scheme \<times> world)" where
  "when_applied h w expr func =
     (case when h w expr of
        (Inl e, w') \<Rightarrow> Inl e
      | (Inr b, w') \<Rightarrow> call h w' b func)"

section \<open>Properties of identifiers\<close>

text \<open>
  The string of a \<open>java.util.UUID\<close>: 36 characters, lower-case hexadecimal digits in
  groups of 8, 4, 4, 4 and 12, separated by hyphens.
\<close>

definition hex_digit :: "char \<Rightarrow> bool" where
  "hex_digit c = (c \<in> set ''0123456789abcdef'')"

definition uuid_string :: "string \<Rightarrow> bool" where
  "uuid_string u =
     (length u = 36 \<and>
      list_all (\<lambda>(i, c). if i \<in> set [8, 13, 18, 23] then c = CHR ''-'' else hex_digit c)
        (enumerate 0 u))"

text \<open>The shape of an identifier: it begins with a letter or digit, has no
  character outside \<open>[A-Za-z0-9_-]\<close> and no two consecutive underscores.\<close>

definition well_formed_id :: "string \<Rightarrow> bool" where
  "well_formed_id uid =
     ((case uid of [] \<Rightarrow> False | c # cs \<Rightarrow> alnum c)
      \<and> list_all uid_char uid
      \<and> \<not> sublist ''__'' uid)"

section \<open>Descriptions used by the properties\<close>

text \<open>The entries of the \<open>triggers\<close> attribute, none when it is absent.\<close>

definition existing :: "'a callback_scheme \<Rightarrow> trigger option list" where
  "existing func = (case triggers func of None \<Rightarrow> [] | Some ts \<Rightarrow> ts)"

text \<open>The five slots of the parse state.\<close>

definition slots :: "vars \<Rightarrow> string option \<times> string option \<times> string option \<times> string option \<times> string option" where
  "slots v = (target_type v, trigger_target v, trigger_type v, old_state v, new_state v)"

text \<open>What a call leaves on the callback object, or the error it throws.\<close>

definition attached :: "js_error + ('a callback_scheme \<times> world) \<Rightarrow> js_error + 'a callback_scheme" where
  "attached r = (case r of Inl e \<Rightarrow> Inl e | Inr (func, w) \<Rightarrow> Inr func)"

text \<open>
  The trigger that one iteration of \<open>item_trigger\<close> creates for \<open>member\<close> when \<open>k\<close>
  UUIDs were drawn before it, and the triggers of a whole member list.  Each iteration
  draws two UUIDs: one in \<open>item_trigger\<close>, one in the trigger builder.
\<close>

definition member_trigger :: "host \<Rightarrow> vars \<Rightarrow> nat \<Rightarrow> item \<Rightarrow> trigger" where
  "member_trigger h v k member =
     (let tt = str_of (trigger_type v);
          trigger_name1 =
            ''Item-'' @ name member @ ''-'' @ replace_first (CHR '' '') ''-'' tt
            @ (case old_state v of Some s \<Rightarrow> ''-from-'' @ s | None \<Rightarrow> [])
            @ (if new_state v \<noteq> None \<and> tt = ''changed'' then ''-to-'' else [])
            @ (if new_state v \<noteq> None \<and> tt = ''received update'' then ''-'' else [])
            @ (case new_state v of Some s \<Rightarrow> s | None \<Rightarrow> []);
          trigger_name2 = validate_uid (Some trigger_name1) (randomUUID h k);
          uid = validate_uid (Some trigger_name2) (randomUUID h (Suc k))
      in if tt = ''received update''
         then \<lparr>trigger_id = uid, typeUID = ''core.ItemStateUpdateTrigger'',
               configuration = put_unless_null ''state'' (new_state v)
                 [''itemName'' \<mapsto> CStr (name member)]\<rparr>
         else if tt = ''received command''
         then \<lparr>trigger_id = uid, typeUID = ''core.ItemCommandTrigger'',
               configuration = put_unless_null ''command'' (new_state v)
                 [''itemName'' \<mapsto> CStr (name member)]\<rparr>
         else \<lparr>trigger_id = uid, typeUID = ''core.ItemStateChangeTrigger'',
               configuration = put_unless_null ''state'' (new_state v)
                 (put_unless_null ''previousState'' (old_state v)
                   [''itemName'' \<mapsto> CStr (name member)])\<rparr>)"

fun member_triggers :: "host \<Rightarrow> vars \<Rightarrow> nat \<Rightarrow> item list \<Rightarrow> trigger list" where
  "member_triggers h v k [] = []"
| "member_triggers h v k (member # members) =
     member_trigger h v k member # member_triggers h v (k + 2) members"

text \<open>The entry \<open>when\<close> logs after a successful validation.\<close>

definition parsed_trace :: "string \<Rightarrow> vars \<Rightarrow> log_entry" where
  "parsed_trace expr v =
     Trace (''when: expr='{}', target_type='{}', trigger_target='{}', ''
            @ ''trigger_type='{}', old_state='{}', new_state='{}'' @ apostrophe)
       [Some expr, target_type v, trigger_target v, trigger_type v, old_state v, new_state v]"

text \<open>Two outcomes that differ at most in the message of a \<open>RangeError\<close>.\<close>

definition without_message :: "js_error + 'a \<Rightarrow> js_error + 'a" where
  "without_message r = (case r of Inl (RangeError m) \<Rightarrow> Inl (RangeError []) | _ \<Rightarrow> r)"

text \<open>The error a call throws, if it throws.\<close>

definition thrown :: "js_error + 'a \<Rightarrow> js_error option" where
  "thrown r = (case r of Inl e \<Rightarrow> Some e | Inr x \<Rightarrow> None)"

text \<open>\<open>appended func func' specs\<close>: the object \<open>func'\<close> is \<open>func\<close> with the entries
  \<open>specs\<close> put after the entries its \<open>triggers\<close> list already held.  The list exists
  afterwards when an entry was put (\<open>add_trigger\<close> creates it); with no entry the
  attribute is as it was, also when it was absent.  Every other attribute is unchanged.\<close>

definition appended :: "'a callback_scheme \<Rightarrow> 'a callback_scheme \<Rightarrow> trigger option list \<Rightarrow> bool" where
  "appended func func' specs =
     (existing func' = existing func @ specs
      \<and> triggers func' = (if specs = [] then triggers func else Some (existing func @ specs))
      \<and> callback.more func' = callback.more func)"

text \<open>The number of entries a function returned by \<open>when\<close> puts on the object: one
  for each member \<open>item_trigger\<close> iterates over (the item itself for an Item target),
  one for every other function.\<close>

definition spec_count :: "host \<Rightarrow> builder \<Rightarrow> nat" where
  "spec_count h b =
     (case b of
        Item_trigger v \<Rightarrow>
          (case getItem h (trigger_target v) of
             None \<Rightarrow> 0
           | Some item \<Rightarrow>
               (case group_members_of v item of Inl e \<Rightarrow> 0 | Inr members \<Rightarrow> length members))
      | Undefined_builder \<Rightarrow> 0
      | _ \<Rightarrow> 1)"

text \<open>A call that returns the object without a \<open>triggers\<close> attribute.\<close>

definition list_absent :: "js_error + ('a callback_scheme \<times> world) \<Rightarrow> bool" where
  "list_absent r =
     (case r of
        Inl e \<Rightarrow> False
      | Inr (func, w) \<Rightarrow> (case triggers func of None \<Rightarrow> True | Some ts \<Rightarrow> False))"

section \<open>An example installation\<close>

text \<open>
  A small host for the concrete evaluations below: a group of two motion sensors, the
  switch of the documentation's examples, one Thing, and the \<open>ThingStatus\<close> enum with
  its seven constants and two static methods.
\<close>

definition switch_item :: "string \<Rightarrow> item" where
  "switch_item n = Item n ''Switch'' [''OnOffType'', ''UnDefType''] [''OnOffType'', ''RefreshType''] [] []"

definition gMotion_Sensors :: item where
  "gMotion_Sensors =
     Item ''gMotion_Sensors'' ''Group'' [''OnOffType'', ''UnDefType''] [''OnOffType'', ''RefreshType'']
       [switch_item ''Hall_Motion'', switch_item ''Porch_Motion'']
       [switch_item ''Hall_Motion'', switch_item ''Porch_Motion'']"

definition example_uuid :: "nat \<Rightarrow> string" where
  "example_uuid k =
     ''0000000'' @ [''0123456789abcdef'' ! (k mod 16)] @ ''-0000-4000-8000-000000000000''"

definition example_host :: host where
  "example_host =
     \<lparr>getItems = (\<lambda>pattern. []),
      getItem = (\<lambda>n. if n = Some ''gMotion_Sensors'' then Some gMotion_Sensors
                      else if n = Some ''Test_Switch_1'' then Some (switch_item ''Test_Switch_1'')
                      else None),
      parseState = (\<lambda>types s. if ''OnOffType'' \<in> set types \<and> s \<in> set [''ON'', ''OFF''] then Some s else None),
      parseCommand = (\<lambda>types s. if ''OnOffType'' \<in> set types \<and> s \<in> set [''ON'', ''OFF''] then Some s else None),
      new_ThingUID = (\<lambda>s. s),
      things_get = (\<lambda>uid. if uid = ''kodi:kodi:familyroom'' then Some uid else None),
      new_ChannelUID = (\<lambda>s. s),
      things_getChannel = (\<lambda>uid. None),
      ThingStatus = (\<lambda>property.
         if property \<in> set [''UNINITIALIZED'', ''INITIALIZING'', ''UNKNOWN'', ''ONLINE'',
              ''OFFLINE'', ''REMOVING'', ''REMOVED'', ''values'', ''valueOf'']
         then Some property else None),
      isValidExpression = (\<lambda>s. True),
      randomUUID = example_uuid\<rparr>"

definition new_world :: world where
  "new_world = \<lparr>uuids_drawn = 0, log = []\<rparr>"

text \<open>The same installation with one more item, a group without members.\<close>

definition gEmpty :: item where
  "gEmpty = Item ''gEmpty'' ''Group'' [''OnOffType'', ''UnDefType''] [''OnOffType'', ''RefreshType''] [] []"

definition host_with_empty_group :: host where
  "host_with_empty_group =
     example_host\<lparr>getItem := (\<lambda>n. if n = Some ''gEmpty'' then Some gEmpty
                                    else getItem example_host n)\<rparr>"

section \<open>Verification\<close>

subsection \<open>The shape of the identifiers \<open>validate_uid\<close> returns\<close>

lemma hex_digit_alnum: "hex_digit c \<Longrightarrow> alnum c"
  by (auto simp: hex_digit_def alnum_def)

lemma hex_digit_not_underscore: "hex_digit c \<Longrightarrow> c \<noteq> CHR ''_''"
  by (auto simp: hex_digit_def)

lemma alnum_not_underscore: "alnum c \<Longrightarrow> c \<noteq> CHR ''_''"
  by (auto simp: alnum_def)

lemma alnum_uid_char: "alnum c \<Longrightarrow> uid_char c"
  by (simp add: uid_char_def)

lemma uid_char_underscore: "uid_char (CHR ''_'')"
  by (simp add: uid_char_def)

lemma uuid_string_nth:
  assumes "uuid_string u" and "i < 36"
  shows "if i \<in> set [8, 13, 18, 23] then u ! i = CHR ''-'' else hex_digit (u ! i)"
proof -
  have len: "length u = 36" using assms(1) by (simp add: uuid_string_def)
  have "(i, u ! i) \<in> set (enumerate 0 u)"
    using assms(2) len by (simp add: in_set_enumerate_eq)
  moreover have "\<forall>p \<in> set (enumerate 0 u).
      (case p of (i, c) \<Rightarrow> if i \<in> set [8, 13, 18, 23] then c = CHR ''-'' else hex_digit c)"
    using assms(1) by (simp add: uuid_string_def list_all_iff)
  ultimately show ?thesis by fastforce
qed

lemma uuid_string_chars:
  assumes "uuid_string u" and "c \<in> set u"
  shows "hex_digit c \<or> c = CHR ''-''"
proof -
  have len: "length u = 36" using assms(1) by (simp add: uuid_string_def)
  obtain i where i: "i < 36" "u ! i = c"
    using assms(2) len by (auto simp: in_set_conv_nth)
  show ?thesis
    using uuid_string_nth [OF assms(1) i(1)] i(2) by (auto split: if_splits)
qed

lemma uuid_string_uid_chars: "uuid_string u \<Longrightarrow> list_all uid_char u"
  by (auto simp: list_all_iff uid_char_def dest: uuid_string_chars hex_digit_alnum)

lemma uuid_string_no_underscore: "uuid_string u \<Longrightarrow> CHR ''_'' \<notin> set u"
  by (auto dest: uuid_string_chars hex_digit_not_underscore)

lemma uuid_string_leading: "uuid_string u \<Longrightarrow> match_leading_alnum u"
proof -
  assume u: "uuid_string u"
  then have "length u = 36" by (simp add: uuid_string_def)
  then obtain c cs where "u = c # cs" by (cases u) auto
  moreover have "hex_digit (u ! 0)"
    using uuid_string_nth [OF u, of 0] by simp
  ultimately show ?thesis by (simp add: hex_digit_alnum)
qed

lemma sanitize_loop_chars: "list_all uid_char (sanitize_loop uid)"
proof (induction uid rule: sanitize_loop.induct)
  case (1 uid)
  show ?case
  proof (cases "match_invalid uid")
    case True
    with 1 show ?thesis by (subst sanitize_loop.simps) simp
  next
    case False
    then show ?thesis
      by (subst sanitize_loop.simps) (simp add: match_invalid_def list_all_iff list_ex_iff)
  qed
qed

lemma replace_underscores_chars:
  "list_all uid_char uid \<Longrightarrow> list_all uid_char (replace_underscores uid)"
proof (induction uid rule: replace_underscores.induct)
  case (3 a b cs)
  have "set (dropWhile (\<lambda>c. c = CHR ''_'') cs) \<subseteq> set cs"
    by (rule set_dropWhileD [THEN subsetI]) 
  with 3 show ?case by (auto simp: list_all_iff)
qed simp_all

lemma replace_underscores_leading:
  "match_leading_alnum uid \<Longrightarrow> match_leading_alnum (replace_underscores uid)"
  by (induction uid rule: replace_underscores.induct) (auto dest: alnum_not_underscore)

lemma collapse_loop_chars: "list_all uid_char uid \<Longrightarrow> list_all uid_char (collapse_loop uid)"
proof (induction uid rule: collapse_loop.induct)
  case (1 uid)
  then show ?case
    by (subst collapse_loop.simps) (simp add: replace_underscores_chars)
qed

lemma collapse_loop_leading:
  "match_leading_alnum uid \<Longrightarrow> match_leading_alnum (collapse_loop uid)"
proof (induction uid rule: collapse_loop.induct)
  case (1 uid)
  then show ?case
    by (subst collapse_loop.simps) (simp add: replace_underscores_leading)
qed

lemma collapse_loop_no_match: "\<not> match_underscores (collapse_loop uid)"
proof (induction uid rule: collapse_loop.induct)
  case (1 uid)
  then show ?case
    by (subst collapse_loop.simps) simp
qed

lemma match_underscores_sublist: "match_underscores uid \<longleftrightarrow> sublist ''__'' uid"
  by (induction uid rule: match_underscores.induct) (auto simp: sublist_Cons_right)

lemma validate_uid_well_formed:
  assumes "list_all uid_char fresh"
  shows "well_formed_id (validate_uid uid fresh)"
proof -
  define uid1 where "uid1 = (if \<not> truthy uid then fresh else sanitize_loop (str_of uid) @ fresh)"
  define uid2 where "uid2 = (if \<not> match_leading_alnum uid1 then ''javascript'' @ uid1 else uid1)"
  have result: "validate_uid uid fresh = collapse_loop uid2"
    by (simp add: validate_uid_def uid1_def uid2_def Let_def)
  have chars1: "list_all uid_char uid1"
    using assms by (simp add: uid1_def sanitize_loop_chars)
  have "list_all uid_char ''javascript''"
    by (simp add: uid_char_def alnum_def)
  with chars1 have chars2: "list_all uid_char uid2"
    by (simp add: uid2_def)
  have "alnum (CHR ''j'')"
    by (simp add: alnum_def)
  then have leading2: "match_leading_alnum uid2"
    by (simp add: uid2_def)
  have "match_leading_alnum (collapse_loop uid2)"
    using leading2 by (rule collapse_loop_leading)
  then have "case collapse_loop uid2 of [] \<Rightarrow> False | c # cs \<Rightarrow> alnum c"
    by (cases "collapse_loop uid2") simp_all
  moreover have "list_all uid_char (collapse_loop uid2)"
    using chars2 by (rule collapse_loop_chars)
  moreover have "\<not> sublist ''__'' (collapse_loop uid2)"
    using collapse_loop_no_match [of uid2] by (simp add: match_underscores_sublist)
  ultimately show ?thesis
    by (simp add: well_formed_id_def result)
qed

text \<open>
  Claim C7.  Every string \<open>validate_uid\<close> returns has the identifier shape: it begins
  with a letter or digit, contains no character outside \<open>[A-Za-z0-9_-]\<close> and no two
  consecutive underscores.  In particular this holds for \<open>validate_uid(validate_uid(s))\<close>,
  for every input \<open>s\<close> (also \<open>null\<close>), whatever UUIDs the two calls draw.
\<close>

theorem validate_uid_shape:
  assumes "uuid_string fresh1" and "uuid_string fresh2"
  shows "well_formed_id (validate_uid uid fresh1)
       \<and> well_formed_id (validate_uid (Some (validate_uid uid fresh1)) fresh2)"
  using assms by (simp add: validate_uid_well_formed uuid_string_uid_chars)

theorem validate_uid_shape_witness:
  "uuid_string ''123e4567-e89b-12d3-a456-426614174000''
   \<and> uuid_string ''00000000-0000-4000-8000-00000000000a''
   \<and> well_formed_id (validate_uid (Some ''_my rule!!'') ''123e4567-e89b-12d3-a456-426614174000'')
   \<and> well_formed_id (validate_uid (Some (validate_uid (Some ''_my rule!!'')
         ''123e4567-e89b-12d3-a456-426614174000'')) ''00000000-0000-4000-8000-00000000000a'')"
proof -
  have u1: "uuid_string ''123e4567-e89b-12d3-a456-426614174000''"
    by (simp add: uuid_string_def hex_digit_def enumerate_eq_zip upt_rec)
  have u2: "uuid_string ''00000000-0000-4000-8000-00000000000a''"
    by (simp add: uuid_string_def hex_digit_def enumerate_eq_zip upt_rec)
  show ?thesis
    using u1 u2 validate_uid_shape [OF u1 u2, of "Some ''_my rule!!''"] by simp
qed

subsection \<open>What the builder strategies do to the callback object\<close>

lemma existing_add_trigger: "existing (add_trigger func t) = existing func @ [t]"
  by (cases "triggers func") (simp_all add: add_trigger_def existing_def)

lemma more_add_trigger: "callback.more (add_trigger func t) = callback.more func"
  by (simp add: add_trigger_def)

lemma triggers_add_trigger: "triggers (add_trigger func t) = Some (existing func @ [t])"
  by (cases "triggers func") (simp_all add: add_trigger_def existing_def)

lemma add_trigger_eq: "add_trigger func t = func\<lparr>triggers := Some (existing func @ [t])\<rparr>"
  by (cases "triggers func") (simp_all add: add_trigger_def existing_def)

lemma item_trigger_member_eq:
  assumes "trigger_type v = Some tt"
  shows "item_trigger_member h v (func, w) member =
     Inr (add_trigger func (Some (member_trigger h v (uuids_drawn w) member)),
          w\<lparr>uuids_drawn := uuids_drawn w + 2,
            log := log w @ [Trace (''when: Created item_trigger: '{}'' @ apostrophe)
              [Some (validate_uid (Some (
                ''Item-'' @ name member @ ''-'' @ replace_first (CHR '' '') ''-'' tt
                @ (case old_state v of Some s \<Rightarrow> ''-from-'' @ s | None \<Rightarrow> [])
                @ (if new_state v \<noteq> None \<and> tt = ''changed'' then ''-to-'' else [])
                @ (if new_state v \<noteq> None \<and> tt = ''received update'' then ''-'' else [])
                @ (case new_state v of Some s \<Rightarrow> s | None \<Rightarrow> [])))
                (randomUUID h (uuids_drawn w)))]]\<rparr>)"
  using assms
  by (simp add: item_trigger_member_def member_trigger_def validate_uid_call_def
      ItemStateUpdateTrigger_def ItemCommandTrigger_def ItemStateChangeTrigger_def
      build_def LOG_trace_def Let_def)

lemma item_trigger_forEach_eq:
  assumes "trigger_type v = Some tt"
  shows "\<exists>l. item_trigger_forEach h v members (func, w) =
     Inr (if members = [] then func
          else func\<lparr>triggers := Some (existing func
                 @ map Some (member_triggers h v (uuids_drawn w) members))\<rparr>,
          w\<lparr>uuids_drawn := uuids_drawn w + 2 * length members, log := log w @ l\<rparr>)"
proof (induction members arbitrary: func w)
  case Nil
  have "w = w\<lparr>log := log w @ []\<rparr>" by simp
  then show ?case by (intro exI [of _ "[]"]) simp
next
  case (Cons member members)
  let ?func1 = "add_trigger func (Some (member_trigger h v (uuids_drawn w) member))"
  obtain w1 l1 where step: "item_trigger_member h v (func, w) member = Inr (?func1, w1)"
    and w1: "w1 = w\<lparr>uuids_drawn := uuids_drawn w + 2, log := log w @ l1\<rparr>"
    using item_trigger_member_eq [OF assms] by blast
  obtain l2 where rest: "item_trigger_forEach h v members (?func1, w1) =
     Inr (if members = [] then ?func1
          else ?func1\<lparr>triggers := Some (existing ?func1
                 @ map Some (member_triggers h v (uuids_drawn w1) members))\<rparr>,
          w1\<lparr>uuids_drawn := uuids_drawn w1 + 2 * length members, log := log w1 @ l2\<rparr>)"
    using Cons.IH by blast
  have "item_trigger_forEach h v (member # members) (func, w) =
     Inr (func\<lparr>triggers := Some (existing func
                 @ map Some (member_triggers h v (uuids_drawn w) (member # members)))\<rparr>,
          w\<lparr>uuids_drawn := uuids_drawn w + 2 * length (member # members),
            log := log w @ (l1 @ l2)\<rparr>)"
    using step rest w1 by (simp add: existing_add_trigger) (simp add: add_trigger_eq)
  then show ?case by auto
qed


subsection \<open>Validation checks that do not do what their message says\<close>

text \<open>
  Claim C4.  The specification says that an expression naming an item that is not in
  the registry fails with "is not in the ItemRegistry" and yields the poison builder.
  The source tests \<open>itemRegistry.getItems(trigger_target) === []\<close>, which is false for
  every value, so the check never fires: for the unknown item \<open>Ghost\<close> the call
  returns \<open>item_trigger\<close> and logs no warning, and the missing item surfaces only when
  the returned function is applied, as the registry's exception.
\<close>

theorem missing_item_is_not_rejected:
  "getItem example_host (Some ''Ghost'') = None
   \<and> when example_host new_world ''Item Ghost changed'' =
       (Inr (Item_trigger \<lparr>input_list = [], target_type = Some ''Item'',
               trigger_target = Some ''Ghost'', trigger_type = Some ''changed'',
               trigger_name = Some ''Item_Ghost_changed00000000-0000-4000-8000-000000000000'',
               old_state = None, new_state = None\<rparr>),
        \<lparr>uuids_drawn = 1,
          log = [Trace (''when: expr='{}', target_type='{}', trigger_target='{}', ''
                        @ ''trigger_type='{}', old_state='{}', new_state='{}'' @ apostrophe)
                   [Some ''Item Ghost changed'', Some ''Item'', Some ''Ghost'',
                    Some ''changed'', None, None]]\<rparr>)
   \<and> thrown (when_applied example_host new_world ''Item Ghost changed'' \<lparr>triggers = None\<rparr>) =
       Some (JavaException ''ItemNotFoundException'')"
  by code_simp

text \<open>
  Claim C5.  The specification says that a command value is rejected exactly when it
  does not parse as a command of the item.  The source throws when
  \<open>TypeParser.parseCommand(...) !== null\<close>, that is when the value does parse: the
  documentation's own example \<open>Item Test_Switch_1 received command OFF\<close> is rejected
  although \<open>OFF\<close> is a command of the switch, and the value \<open>FOO\<close>, which is not, is
  accepted.
\<close>

theorem valid_command_is_rejected:
  "parseCommand example_host (acceptedCommandTypes (switch_item ''Test_Switch_1'')) ''OFF''
     = Some ''OFF''
   \<and> when example_host new_world ''Item Test_Switch_1 received command OFF'' =
       (Inr Bad_trigger,
        \<lparr>uuids_drawn = 0,
          log = [Warn (''when: 'Item Test_Switch_1 received command OFF' could not be ''
                       @ ''parsed because 'OFF' is not a valid command for 'Test_Switch_1''
                       @ apostrophe)]\<rparr>)
   \<and> parseCommand example_host (acceptedCommandTypes (switch_item ''Test_Switch_1'')) ''FOO''
     = None
   \<and> fst (when example_host new_world ''Item Test_Switch_1 received command FOO'') =
       Inr (Item_trigger \<lparr>input_list = [], target_type = Some ''Item'',
              trigger_target = Some ''Test_Switch_1'', trigger_type = Some ''received command'',
              trigger_name = Some
                ''Item_Test_Switch_1_received_command_FOO00000000-0000-4000-8000-000000000000'',
              old_state = None, new_state = Some ''FOO''\<rparr>)"
  by code_simp

text \<open>
  Claim C6.  The specification says that a Thing status value passes exactly when it
  is a valid \<open>ThingStatus\<close>.  The source reads \<open>ThingStatus.old_state\<close> and
  \<open>ThingStatus.new_state\<close>, the properties with these literal names, instead of the
  constant the value names; the enum has no such property, so every given status is
  rejected: the documentation's own example with \<open>ONLINE\<close> and \<open>OFFLINE\<close> yields the
  poison builder.
\<close>

theorem valid_thing_status_is_rejected:
  "ThingStatus example_host ''ONLINE'' = Some ''ONLINE''
   \<and> ThingStatus example_host ''OFFLINE'' = Some ''OFFLINE''
   \<and> things_get example_host ''kodi:kodi:familyroom'' = Some ''kodi:kodi:familyroom''
   \<and> when example_host new_world ''Thing kodi:kodi:familyroom changed from ONLINE to OFFLINE'' =
       (Inr Bad_trigger,
        \<lparr>uuids_drawn = 0, log = [Warn ''when: 'ONLINE' is not a valid Thing status'']\<rparr>)"
  by code_simp

subsection \<open>A successful call of \<open>when\<close>\<close>

lemma item_trigger_eq:
  assumes "getItem h (trigger_target v) = Some item"
    and "group_members_of v item = Inr members"
    and "trigger_type v = Some tt"
  shows "\<exists>l. item_trigger h w v func =
     Inr (if members = [] then func
          else func\<lparr>triggers := Some (existing func
                 @ map Some (member_triggers h v (uuids_drawn w) members))\<rparr>,
          w\<lparr>uuids_drawn := uuids_drawn w + 2 * length members, log := log w @ l\<rparr>)"
  using assms(1,2) item_trigger_forEach_eq [OF assms(3), of h members func w]
  by (simp add: item_trigger_def)

lemma when_eq:
  assumes "parse_expression h expr = Inr v" and "validate h expr v = Inr ()"
  shows "when h w expr =
     (Inr (select_builder (v\<lparr>trigger_name := Some (validate_uid (or_else (trigger_name v) expr)
                                (randomUUID h (uuids_drawn w)))\<rparr>)),
      w\<lparr>uuids_drawn := Suc (uuids_drawn w), log := log w @ [parsed_trace expr v]\<rparr>)"
  using assms
  by (simp add: when_def when_try_def validate_uid_call_def LOG_trace_def Let_def
      parsed_trace_def)

lemma parse_item_changed_from_on_to_off:
  "parse_expression h ''Item gMotion_Sensors changed from ON to OFF'' =
     Inr \<lparr>input_list = [], target_type = Some ''Item'',
          trigger_target = Some ''gMotion_Sensors'', trigger_type = Some ''changed'',
          trigger_name = None, old_state = Some ''ON'', new_state = Some ''OFF''\<rparr>"
  by code_simp


lemma validate_item_changed_from_on_to_off:
  assumes "getItem h (Some ''gMotion_Sensors'') = Some item"
    and "parseState h (acceptedDataTypes item) ''ON'' \<noteq> None"
    and "parseState h (acceptedDataTypes item) ''OFF'' \<noteq> None"
  shows "validate h expr \<lparr>input_list = [], target_type = Some ''Item'',
          trigger_target = Some ''gMotion_Sensors'', trigger_type = Some ''changed'',
          trigger_name = None, old_state = Some ''ON'', new_state = Some ''OFF''\<rparr> = Inr ()"
  using assms
  by (simp add: validate_def else_if_def target_type_invalid_def trigger_type_missing_def
      item_not_in_registry_def strict_equals_new_array_def not_a_group_def
      old_state_invalid_def new_state_invalid_def command_invalid_def with_item_def
      thing_not_in_registry_def old_status_invalid_def new_status_invalid_def
      channel_missing_def not_a_trigger_channel_def system_target_invalid_def lifecycle_def)

text \<open>
  Claim C8.  \<open>when("Item gMotion_Sensors changed from ON to OFF")\<close>, when
  \<open>gMotion_Sensors\<close> is in the registry and \<open>ON\<close> and \<open>OFF\<close> are states of its
  accepted data types, attaches exactly one trigger spec: its type is
  \<open>core.ItemStateChangeTrigger\<close> and its configuration maps \<open>itemName\<close> to the item's
  name, \<open>previousState\<close> to \<open>ON\<close> and \<open>state\<close> to \<open>OFF\<close>, and nothing else.
\<close>

theorem item_changed_from_on_to_off:
  assumes "getItem h (Some ''gMotion_Sensors'') = Some item"
    and "parseState h (acceptedDataTypes item) ''ON'' \<noteq> None"
    and "parseState h (acceptedDataTypes item) ''OFF'' \<noteq> None"
  shows "\<exists>t w'. when_applied h w ''Item gMotion_Sensors changed from ON to OFF'' func =
           Inr (func\<lparr>triggers := Some (existing func @ [Some t])\<rparr>, w')
         \<and> typeUID t = ''core.ItemStateChangeTrigger''
         \<and> configuration t = [''itemName'' \<mapsto> CStr (name item),
                               ''previousState'' \<mapsto> CStr ''ON'', ''state'' \<mapsto> CStr ''OFF'']"
proof -
  let ?expr = "''Item gMotion_Sensors changed from ON to OFF''"
  let ?v = "\<lparr>input_list = [], target_type = Some ''Item'',
          trigger_target = Some ''gMotion_Sensors'', trigger_type = Some ''changed'',
          trigger_name = None, old_state = Some ''ON'', new_state = Some ''OFF''\<rparr>"
  obtain uid l where "when": "when h w ?expr =
      (Inr (select_builder (?v\<lparr>trigger_name := Some uid\<rparr>)),
       w\<lparr>uuids_drawn := Suc (uuids_drawn w), log := log w @ l\<rparr>)"
    using when_eq [OF parse_item_changed_from_on_to_off
        validate_item_changed_from_on_to_off [OF assms]] by blast
  let ?v' = "?v\<lparr>trigger_name := Some uid\<rparr>"
  let ?w1 = "w\<lparr>uuids_drawn := Suc (uuids_drawn w), log := log w @ l\<rparr>"
  have builder: "select_builder ?v' = Item_trigger ?v'"
    by (simp add: select_builder_def lifecycle_def)
  have members: "group_members_of ?v' item = Inr [item]"
    by (simp add: group_members_of_def)
  obtain l' where call: "item_trigger h ?w1 ?v' func =
     Inr (func\<lparr>triggers := Some (existing func
                 @ map Some (member_triggers h ?v' (uuids_drawn ?w1) [item]))\<rparr>,
          ?w1\<lparr>uuids_drawn := uuids_drawn ?w1 + 2 * length [item], log := log ?w1 @ l'\<rparr>)"
    using item_trigger_eq [of h ?v' item "[item]" "''changed''" ?w1 func] assms(1) members
    by auto
  let ?t = "member_trigger h ?v' (Suc (uuids_drawn w)) item"
  have "when_applied h w ?expr func =
     Inr (func\<lparr>triggers := Some (existing func @ [Some ?t])\<rparr>,
          ?w1\<lparr>uuids_drawn := uuids_drawn ?w1 + 2 * length [item], log := log ?w1 @ l'\<rparr>)"
    using "when" builder call by (simp add: when_applied_def)
  moreover have "typeUID ?t = ''core.ItemStateChangeTrigger''"
    by (simp add: member_trigger_def Let_def)
  moreover have "configuration ?t = [''itemName'' \<mapsto> CStr (name item),
                               ''previousState'' \<mapsto> CStr ''ON'', ''state'' \<mapsto> CStr ''OFF'']"
    by (simp add: member_trigger_def Let_def)
  ultimately show ?thesis by blast
qed

theorem item_changed_from_on_to_off_witness:
  "getItem example_host (Some ''gMotion_Sensors'') = Some gMotion_Sensors
   \<and> parseState example_host (acceptedDataTypes gMotion_Sensors) ''ON'' \<noteq> None
   \<and> parseState example_host (acceptedDataTypes gMotion_Sensors) ''OFF'' \<noteq> None
   \<and> (\<exists>t w'. when_applied example_host new_world
                 ''Item gMotion_Sensors changed from ON to OFF'' \<lparr>triggers = None\<rparr> =
                   Inr (\<lparr>triggers = Some [Some t]\<rparr>, w')
               \<and> typeUID t = ''core.ItemStateChangeTrigger''
               \<and> configuration t = [''itemName'' \<mapsto> CStr ''gMotion_Sensors'',
                    ''previousState'' \<mapsto> CStr ''ON'', ''state'' \<mapsto> CStr ''OFF''])"
proof -
  have item: "getItem example_host (Some ''gMotion_Sensors'') = Some gMotion_Sensors"
    by (simp add: example_host_def)
  have on: "parseState example_host (acceptedDataTypes gMotion_Sensors) ''ON'' \<noteq> None"
    by (simp add: example_host_def gMotion_Sensors_def)
  have off: "parseState example_host (acceptedDataTypes gMotion_Sensors) ''OFF'' \<noteq> None"
    by (simp add: example_host_def gMotion_Sensors_def)
  have "name gMotion_Sensors = ''gMotion_Sensors''"
    by (simp add: gMotion_Sensors_def)
  then show ?thesis
    using item on off
      item_changed_from_on_to_off [OF item on off, of new_world "\<lparr>triggers = None\<rparr>"]
    by (simp add: existing_def)
qed

subsection \<open>Parsing expressions with arbitrary tokens\<close>

lemma split_no_separator: "d \<notin> set s \<Longrightarrow> split d s = [s]"
  by (induction s) auto

lemma split_append: "d \<notin> set a \<Longrightarrow> split d (a @ d # b) = a # split d b"
  by (induction a) auto

lemma parse_single_word:
  assumes "CHR '' '' \<notin> set X"
  shows "parse_expression h X =
     Inr \<lparr>input_list = [X], target_type = Some ''Item'', trigger_target = Some X,
          trigger_type = Some ''changed'', trigger_name = None, old_state = None,
          new_state = None\<rparr>"
  using assms by (simp add: parse_expression_def initial_vars_def split_no_separator)

lemmas parse_defs =
  parse_expression_def initial_vars_def parse_loop.simps parse_step_def
  parse_target_type_def parse_trigger_target_def parse_trigger_type_def parse_qualifier_def
  Let_def

lemma parse_item_changed:
  assumes "CHR '' '' \<notin> set X"
  shows "parse_expression h (''Item '' @ X @ '' changed'') =
     Inr \<lparr>input_list = [], target_type = Some ''Item'', trigger_target = Some X,
          trigger_type = Some ''changed'', trigger_name = None, old_state = None,
          new_state = None\<rparr>"
  using assms by (simp add: parse_defs split_append)


subsection \<open>Expressions that fill the same slots\<close>

text \<open>
  Validation and \<open>item_trigger\<close> read the five slots only: two expressions that parse
  to the same slots are rejected alike (up to the text of the message) and, for item
  targets, leave the same trigger specs on the callback object when the same UUIDs are
  drawn.
\<close>

lemma member_trigger_cong:
  assumes "trigger_type v1 = trigger_type v2" and "old_state v1 = old_state v2"
    and "new_state v1 = new_state v2"
  shows "member_trigger h v1 k member = member_trigger h v2 k member"
  unfolding member_trigger_def assms by (rule refl)

lemma member_triggers_cong:
  assumes "slots v1 = slots v2"
  shows "member_triggers h v1 k members = member_triggers h v2 k members"
proof (induction members arbitrary: k)
  case Nil
  show ?case by simp
next
  case (Cons member members)
  have "member_trigger h v1 k member = member_trigger h v2 k member"
    using assms by (intro member_trigger_cong) (simp_all add: slots_def)
  with Cons show ?case by simp
qed

lemma item_trigger_cong:
  assumes s: "slots v1 = slots v2" and tt: "trigger_type v1 = Some tt"
    and k: "uuids_drawn w1 = uuids_drawn w2"
  shows "attached (item_trigger h w1 v1 func) = attached (item_trigger h w2 v2 func)"
proof -
  have tt2: "trigger_type v2 = Some tt" and target: "trigger_target v2 = trigger_target v1"
    and type: "target_type v2 = target_type v1"
    using s tt by (simp_all add: slots_def)
  show ?thesis
  proof (cases "getItem h (trigger_target v1)")
    case None
    then show ?thesis by (simp add: item_trigger_def target)
  next
    case (Some item)
    have same: "group_members_of v2 item = group_members_of v1 item"
      by (simp add: group_members_of_def type)
    show ?thesis
    proof (cases "group_members_of v1 item")
      case (Inl e)
      with Some same show ?thesis by (simp add: item_trigger_def target)
    next
      case (Inr members)
      obtain l1 where 1: "item_trigger h w1 v1 func =
         Inr (if members = [] then func
              else func\<lparr>triggers := Some (existing func
                     @ map Some (member_triggers h v1 (uuids_drawn w1) members))\<rparr>,
              w1\<lparr>uuids_drawn := uuids_drawn w1 + 2 * length members, log := log w1 @ l1\<rparr>)"
        using item_trigger_eq [OF Some Inr tt] by blast
      obtain l2 where 2: "item_trigger h w2 v2 func =
         Inr (if members = [] then func
              else func\<lparr>triggers := Some (existing func
                     @ map Some (member_triggers h v2 (uuids_drawn w2) members))\<rparr>,
              w2\<lparr>uuids_drawn := uuids_drawn w2 + 2 * length members, log := log w2 @ l2\<rparr>)"
        using item_trigger_eq [of h v2 item members tt] Some Inr tt2 same target by auto
      show ?thesis
        using 1 2 k member_triggers_cong [OF s] by (simp add: attached_def)
    qed
  qed
qed

lemma conditions_cong:
  assumes "slots v1 = slots v2"
  shows "target_type_invalid v1 = target_type_invalid v2"
    and "trigger_type_missing v1 = trigger_type_missing v2"
    and "item_not_in_registry h v1 = item_not_in_registry h v2"
    and "not_a_group h v1 = not_a_group h v2"
    and "old_state_invalid h v1 = old_state_invalid h v2"
    and "new_state_invalid h v1 = new_state_invalid h v2"
    and "command_invalid h v1 = command_invalid h v2"
    and "thing_not_in_registry h v1 = thing_not_in_registry h v2"
    and "old_status_invalid h v1 = old_status_invalid h v2"
    and "new_status_invalid h v1 = new_status_invalid h v2"
    and "channel_missing h v1 = channel_missing h v2"
    and "not_a_trigger_channel h v1 = not_a_trigger_channel h v2"
    and "system_target_invalid v1 = system_target_invalid v2"
proof -
  have fields: "target_type v1 = target_type v2" "trigger_target v1 = trigger_target v2"
    "trigger_type v1 = trigger_type v2" "old_state v1 = old_state v2"
    "new_state v1 = new_state v2"
    using assms by (simp_all add: slots_def)
  show "target_type_invalid v1 = target_type_invalid v2"
    unfolding target_type_invalid_def fields by (rule refl)
  show "trigger_type_missing v1 = trigger_type_missing v2"
    unfolding trigger_type_missing_def fields by (rule refl)
  show "item_not_in_registry h v1 = item_not_in_registry h v2"
    unfolding item_not_in_registry_def fields by (rule refl)
  show "not_a_group h v1 = not_a_group h v2"
    unfolding not_a_group_def fields by (rule refl)
  show "old_state_invalid h v1 = old_state_invalid h v2"
    unfolding old_state_invalid_def fields by (rule refl)
  show "new_state_invalid h v1 = new_state_invalid h v2"
    unfolding new_state_invalid_def fields by (rule refl)
  show "command_invalid h v1 = command_invalid h v2"
    unfolding command_invalid_def fields by (rule refl)
  show "thing_not_in_registry h v1 = thing_not_in_registry h v2"
    unfolding thing_not_in_registry_def fields by (rule refl)
  show "old_status_invalid h v1 = old_status_invalid h v2"
    unfolding old_status_invalid_def fields by (rule refl)
  show "new_status_invalid h v1 = new_status_invalid h v2"
    unfolding new_status_invalid_def fields by (rule refl)
  show "channel_missing h v1 = channel_missing h v2"
    unfolding channel_missing_def fields by (rule refl)
  show "not_a_trigger_channel h v1 = not_a_trigger_channel h v2"
    unfolding not_a_trigger_channel_def fields by (rule refl)
  show "system_target_invalid v1 = system_target_invalid v2"
    unfolding system_target_invalid_def fields by (rule refl)
qed

lemma else_if_cong:
  assumes "without_message rest1 = without_message rest2"
  shows "without_message (else_if c (RangeError m1) rest1)
       = without_message (else_if c (RangeError m2) rest2)"
  using assms by (cases c) (simp_all add: else_if_def without_message_def)

lemma validate_cong:
  assumes "slots v1 = slots v2"
  shows "without_message (validate h e1 v1) = without_message (validate h e2 v2)"
  unfolding validate_def conditions_cong [OF assms]
  by (intro else_if_cong) simp


lemma when_range_error:
  assumes "parse_expression h expr = Inr v" and "validate h expr v = Inl (RangeError m)"
  shows "when h w expr = (Inr Bad_trigger, LOG_warn w m)"
  using assms by (simp add: when_def when_try_def)

lemma when_other_error:
  assumes "parse_expression h expr = Inr v" and "validate h expr v = Inl e"
    and "\<And>m. e \<noteq> RangeError m"
  shows "when h w expr =
     (Inl (GenericError ''log_traceback caught an error (see the stack trace for details)''),
      LOG_error w e ''when'')"
  using assms by (cases e) (auto simp: when_def when_try_def)

lemma when_applied_rejected:
  assumes p1: "parse_expression h e1 = Inr v1" and p2: "parse_expression h e2 = Inr v2"
    and s: "slots v1 = slots v2" and rejected: "validate h e1 v1 \<noteq> Inr ()"
  shows "attached (when_applied h w e1 func) = attached (when_applied h w e2 func)"
proof -
  obtain x where x: "validate h e1 v1 = Inl x"
    using rejected by (cases "validate h e1 v1") auto
  have same: "without_message (validate h e1 v1) = without_message (validate h e2 v2)"
    using s by (rule validate_cong)
  show ?thesis
  proof (cases "\<exists>m. x = RangeError m")
    case True
    then obtain m where m: "x = RangeError m" by blast
    then obtain m' where "validate h e2 v2 = Inl (RangeError m')"
      using same x
      by (auto simp: without_message_def split: sum.splits js_error.splits)
    then show ?thesis
      using when_range_error [OF p1, of m w] when_range_error [OF p2, of m' w] x m
      by (simp add: when_applied_def bad_trigger_def attached_def)
  next
    case False
    then have other: "\<And>m. x \<noteq> RangeError m" by blast
    then have "validate h e2 v2 = Inl x"
      using same x
      by (auto simp: without_message_def split: sum.splits js_error.splits)
    then show ?thesis
      using when_other_error [OF p1 x other, of w] when_other_error [OF p2 _ other, of w]
      by (simp add: when_applied_def attached_def)
  qed
qed

lemma when_applied_items:
  assumes p1: "parse_expression h e1 = Inr v1" and p2: "parse_expression h e2 = Inr v2"
    and s: "slots v1 = slots v2"
    and type: "target_type v1 \<in> set [Some ''Item'', Some ''Member of'', Some ''Descendent of'']"
    and tt: "trigger_type v1 = Some tt" and event: "\<not> lifecycle (Some tt)"
  shows "attached (when_applied h w e1 func) = attached (when_applied h w e2 func)"
proof (cases "validate h e1 v1 = Inr ()")
  case False
  with p1 p2 s show ?thesis by (rule when_applied_rejected)
next
  case True
  have "without_message (validate h e1 v1) = without_message (validate h e2 v2)"
    using s by (rule validate_cong)
  with True have valid2: "validate h e2 v2 = Inr ()"
    by (auto simp: without_message_def split: sum.splits js_error.splits)
  define u1 where "u1 = validate_uid (or_else (trigger_name v1) e1) (randomUUID h (uuids_drawn w))"
  define u2 where "u2 = validate_uid (or_else (trigger_name v2) e2) (randomUUID h (uuids_drawn w))"
  let ?v1 = "v1\<lparr>trigger_name := Some u1\<rparr>" and ?v2 = "v2\<lparr>trigger_name := Some u2\<rparr>"
  let ?w1 = "w\<lparr>uuids_drawn := Suc (uuids_drawn w), log := log w @ [parsed_trace e1 v1]\<rparr>"
  let ?w2 = "w\<lparr>uuids_drawn := Suc (uuids_drawn w), log := log w @ [parsed_trace e2 v2]\<rparr>"
  have type2: "target_type v2 = target_type v1" and tt2: "trigger_type v2 = Some tt"
    using s tt by (simp_all add: slots_def)
  have b1: "select_builder ?v1 = Item_trigger ?v1"
    using type tt event by (simp add: select_builder_def)
  have b2: "select_builder ?v2 = Item_trigger ?v2"
    using type type2 tt2 event by (simp add: select_builder_def)
  have 1: "when_applied h w e1 func = item_trigger h ?w1 ?v1 func"
    using when_eq [OF p1 True, of w] b1 by (simp add: when_applied_def u1_def)
  have 2: "when_applied h w e2 func = item_trigger h ?w2 ?v2 func"
    using when_eq [OF p2 valid2, of w] b2 by (simp add: when_applied_def u2_def)
  have "attached (item_trigger h ?w1 ?v1 func) = attached (item_trigger h ?w2 ?v2 func)"
    using s tt by (intro item_trigger_cong [where tt = tt]) (simp_all add: slots_def)
  with 1 2 show ?thesis by simp
qed

text \<open>
  Claim C3.  For every input \<open>X\<close> without a space, \<open>when(X)\<close> is equivalent to
  \<open>when("Item " + X + " changed")\<close>: both parse to \<open>target_type = Item\<close>,
  \<open>trigger_target = X\<close>, \<open>trigger_type = changed\<close> with no old or new state, and
  applying the two results to a callback object leaves the same object (the same
  specs, with the same ids when the same UUIDs are drawn) or throws the same error.
\<close>

theorem single_word_shortcut:
  assumes "CHR '' '' \<notin> set X"
  shows "\<exists>v1 v2. parse_expression h X = Inr v1
           \<and> parse_expression h (''Item '' @ X @ '' changed'') = Inr v2
           \<and> slots v1 = (Some ''Item'', Some X, Some ''changed'', None, None)
           \<and> slots v2 = (Some ''Item'', Some X, Some ''changed'', None, None)
           \<and> attached (when_applied h w X func)
             = attached (when_applied h w (''Item '' @ X @ '' changed'') func)"
proof -
  let ?v1 = "\<lparr>input_list = [X], target_type = Some ''Item'', trigger_target = Some X,
          trigger_type = Some ''changed'', trigger_name = None, old_state = None,
          new_state = None\<rparr>"
  let ?v2 = "\<lparr>input_list = [], target_type = Some ''Item'', trigger_target = Some X,
          trigger_type = Some ''changed'', trigger_name = None, old_state = None,
          new_state = None\<rparr>"
  have p1: "parse_expression h X = Inr ?v1"
    using assms by (rule parse_single_word)
  have p2: "parse_expression h (''Item '' @ X @ '' changed'') = Inr ?v2"
    using assms by (rule parse_item_changed)
  have s: "slots ?v1 = slots ?v2"
    by (simp add: slots_def)
  have "attached (when_applied h w X func)
      = attached (when_applied h w (''Item '' @ X @ '' changed'') func)"
    using p1 p2 s
    by (rule when_applied_items [where tt = "''changed''"]) (simp_all add: lifecycle_def)
  with p1 p2 show ?thesis
    by (simp add: slots_def)
qed

theorem single_word_shortcut_witness:
  "CHR '' '' \<notin> set ''Test_Switch_1''
   \<and> (\<exists>v1 v2. parse_expression example_host ''Test_Switch_1'' = Inr v1
           \<and> parse_expression example_host (''Item '' @ ''Test_Switch_1'' @ '' changed'') = Inr v2
           \<and> slots v1 = (Some ''Item'', Some ''Test_Switch_1'', Some ''changed'', None, None)
           \<and> slots v2 = (Some ''Item'', Some ''Test_Switch_1'', Some ''changed'', None, None)
           \<and> attached (when_applied example_host new_world ''Test_Switch_1''
                          \<lparr>triggers = None\<rparr>)
             = attached (when_applied example_host new_world
                          (''Item '' @ ''Test_Switch_1'' @ '' changed'') \<lparr>triggers = None\<rparr>))
   \<and> thrown (when_applied example_host new_world ''Test_Switch_1'' \<lparr>triggers = None\<rparr>) = None"
proof -
  have no_space: "CHR '' '' \<notin> set ''Test_Switch_1''"
    by simp
  have returns: "thrown (when_applied example_host new_world ''Test_Switch_1''
                   \<lparr>triggers = None\<rparr>) = None"
    by code_simp
  show ?thesis
    using no_space returns
      single_word_shortcut [OF no_space, where h = example_host and w = new_world
        and func = "\<lparr>triggers = None\<rparr>"]
    by blast
qed

subsection \<open>The order of the \<open>from\<close> and \<open>to\<close> qualifiers\<close>

lemma parse_changed_from_to:
  assumes "tt \<in> set [''Item'', ''Thing'', ''Member of'', ''Descendent of'']"
    and "CHR '' '' \<notin> set T" and "CHR '' '' \<notin> set X" and "CHR '' '' \<notin> set Y"
  shows "parse_expression h (tt @ '' '' @ T @ '' changed from '' @ X @ '' to '' @ Y) =
     Inr \<lparr>input_list = [], target_type = Some tt, trigger_target = Some T,
          trigger_type = Some ''changed'', trigger_name = None, old_state = Some X,
          new_state = Some Y\<rparr>"
proof -
  consider "tt = ''Item''" | "tt = ''Thing''" | "tt = ''Member of''" | "tt = ''Descendent of''"
    using assms(1) by auto
  then show ?thesis
  proof cases
    case 1
    with assms(2-4) show ?thesis
      by (simp add: parse_defs split_append split_no_separator split del: if_split)
  next
    case 2
    with assms(2-4) show ?thesis
      by (simp add: parse_defs split_append split_no_separator split del: if_split)
  next
    case 3
    with assms(2-4) show ?thesis
      by (simp add: parse_defs split_append split_no_separator split del: if_split)
  next
    case 4
    with assms(2-4) show ?thesis
      by (simp add: parse_defs split_append split_no_separator split del: if_split)
  qed
qed

lemma parse_changed_to_from:
  assumes "tt \<in> set [''Item'', ''Thing'', ''Member of'', ''Descendent of'']"
    and "CHR '' '' \<notin> set T" and "CHR '' '' \<notin> set X" and "CHR '' '' \<notin> set Y"
  shows "parse_expression h (tt @ '' '' @ T @ '' changed to '' @ Y @ '' from '' @ X) =
     Inr \<lparr>input_list = [], target_type = Some tt, trigger_target = Some T,
          trigger_type = Some ''changed'', trigger_name = None, old_state = Some X,
          new_state = Some Y\<rparr>"
proof -
  consider "tt = ''Item''" | "tt = ''Thing''" | "tt = ''Member of''" | "tt = ''Descendent of''"
    using assms(1) by auto
  then show ?thesis
  proof cases
    case 1
    with assms(2-4) show ?thesis
      by (simp add: parse_defs split_append split_no_separator split del: if_split)
  next
    case 2
    with assms(2-4) show ?thesis
      by (simp add: parse_defs split_append split_no_separator split del: if_split)
  next
    case 3
    with assms(2-4) show ?thesis
      by (simp add: parse_defs split_append split_no_separator split del: if_split)
  next
    case 4
    with assms(2-4) show ?thesis
      by (simp add: parse_defs split_append split_no_separator split del: if_split)
  qed
qed

lemma thing_status_rejected:
  assumes "target_type v = Some ''Thing''" and "trigger_type v = Some ''changed''"
    and "old_state v = Some X" and "ThingStatus h ''old_state'' = None"
  shows "validate h expr v \<noteq> Inr ()"
  using assms
  by (simp add: validate_def else_if_def target_type_invalid_def trigger_type_missing_def
      item_not_in_registry_def strict_equals_new_array_def not_a_group_def
      old_state_invalid_def new_state_invalid_def command_invalid_def
      thing_not_in_registry_def old_status_invalid_def lifecycle_def
      split: option.splits)


text \<open>
  Claim C10.  After \<open>changed\<close> the qualifiers may come in either order: for the target
  types that allow \<open>changed\<close> and all tokens \<open>T\<close>, \<open>X\<close>, \<open>Y\<close>, the expression
  \<open>... T changed to Y from X\<close> parses to the same slots as \<open>... T changed from X to Y\<close>
  (\<open>old_state = X\<close>, \<open>new_state = Y\<close>), and applying the two results leaves the same
  callback object (the same specs, ids included, when the same UUIDs are drawn) or
  throws the same error.  A Thing id is derived from the expression text; with a
  status given no Thing spec is built in either order, because \<open>ThingStatus\<close> has no
  property named \<open>old_state\<close>, which is the hypothesis for Things.
\<close>

theorem qualifier_order:
  assumes type: "tt \<in> set [''Item'', ''Thing'', ''Member of'', ''Descendent of'']"
    and tokens: "CHR '' '' \<notin> set T" "CHR '' '' \<notin> set X" "CHR '' '' \<notin> set Y"
    and status: "tt = ''Thing'' \<longrightarrow> ThingStatus h ''old_state'' = None"
  shows "parse_expression h (tt @ '' '' @ T @ '' changed from '' @ X @ '' to '' @ Y) =
           Inr \<lparr>input_list = [], target_type = Some tt, trigger_target = Some T,
                trigger_type = Some ''changed'', trigger_name = None, old_state = Some X,
                new_state = Some Y\<rparr>
       \<and> parse_expression h (tt @ '' '' @ T @ '' changed to '' @ Y @ '' from '' @ X) =
           Inr \<lparr>input_list = [], target_type = Some tt, trigger_target = Some T,
                trigger_type = Some ''changed'', trigger_name = None, old_state = Some X,
                new_state = Some Y\<rparr>
       \<and> attached (when_applied h w (tt @ '' '' @ T @ '' changed to '' @ Y @ '' from '' @ X) func)
         = attached (when_applied h w (tt @ '' '' @ T @ '' changed from '' @ X @ '' to '' @ Y) func)"
proof -
  let ?v = "\<lparr>input_list = [], target_type = Some tt, trigger_target = Some T,
                trigger_type = Some ''changed'', trigger_name = None, old_state = Some X,
                new_state = Some Y\<rparr>"
  let ?e1 = "tt @ '' '' @ T @ '' changed from '' @ X @ '' to '' @ Y"
  let ?e2 = "tt @ '' '' @ T @ '' changed to '' @ Y @ '' from '' @ X"
  have p1: "parse_expression h ?e1 = Inr ?v"
    using type tokens by (rule parse_changed_from_to)
  have p2: "parse_expression h ?e2 = Inr ?v"
    using type tokens by (rule parse_changed_to_from)
  have "attached (when_applied h w ?e2 func) = attached (when_applied h w ?e1 func)"
  proof (cases "tt = ''Thing''")
    case True
    with status have "validate h ?e2 ?v \<noteq> Inr ()"
      by (intro thing_status_rejected [where X = X]) simp_all
    with p2 p1 show ?thesis
      by (intro when_applied_rejected [where ?v1.0 = ?v and ?v2.0 = ?v]) simp_all
  next
    case False
    with type have "target_type ?v \<in> set [Some ''Item'', Some ''Member of'', Some ''Descendent of'']"
      by auto
    with p2 p1 show ?thesis
      by (intro when_applied_items [where ?v1.0 = ?v and ?v2.0 = ?v and tt = "''changed''"])
         (simp_all add: lifecycle_def)
  qed
  with p1 p2 show ?thesis by blast
qed

theorem qualifier_order_witness:
  "''Item'' \<in> set [''Item'', ''Thing'', ''Member of'', ''Descendent of'']
   \<and> CHR '' '' \<notin> set ''Test_Switch_1'' \<and> CHR '' '' \<notin> set ''ON'' \<and> CHR '' '' \<notin> set ''OFF''
   \<and> parse_expression example_host (''Item'' @ '' '' @ ''Test_Switch_1'' @ '' changed to '' @ ''OFF'' @ '' from '' @ ''ON'') =
           Inr \<lparr>input_list = [], target_type = Some ''Item'', trigger_target = Some ''Test_Switch_1'',
                trigger_type = Some ''changed'', trigger_name = None, old_state = Some ''ON'',
                new_state = Some ''OFF''\<rparr>
   \<and> attached (when_applied example_host new_world
         (''Item'' @ '' '' @ ''Test_Switch_1'' @ '' changed to '' @ ''OFF'' @ '' from '' @ ''ON'')
         \<lparr>triggers = None\<rparr>)
     = attached (when_applied example_host new_world
         (''Item'' @ '' '' @ ''Test_Switch_1'' @ '' changed from '' @ ''ON'' @ '' to '' @ ''OFF'')
         \<lparr>triggers = None\<rparr>)
   \<and> thrown (when_applied example_host new_world ''Item Test_Switch_1 changed to OFF from ON''
         \<lparr>triggers = None\<rparr>) = None
   \<and> ThingStatus example_host ''old_state'' = None
   \<and> attached (when_applied example_host new_world
         (''Thing'' @ '' '' @ ''kodi:kodi:familyroom'' @ '' changed to '' @ ''OFFLINE'' @ '' from '' @ ''ONLINE'')
         \<lparr>triggers = None\<rparr>)
     = attached (when_applied example_host new_world
         (''Thing'' @ '' '' @ ''kodi:kodi:familyroom'' @ '' changed from '' @ ''ONLINE'' @ '' to '' @ ''OFFLINE'')
         \<lparr>triggers = None\<rparr>)"
proof -
  have type: "''Item'' \<in> set [''Item'', ''Thing'', ''Member of'', ''Descendent of'']"
    by simp
  have tokens: "CHR '' '' \<notin> set ''Test_Switch_1''" "CHR '' '' \<notin> set ''ON''"
    "CHR '' '' \<notin> set ''OFF''"
    by simp_all
  have status: "''Item'' = ''Thing'' \<longrightarrow> ThingStatus example_host ''old_state'' = None"
    by simp
  have returns: "thrown (when_applied example_host new_world
         ''Item Test_Switch_1 changed to OFF from ON'' \<lparr>triggers = None\<rparr>) = None"
    by code_simp
  have thing_type: "''Thing'' \<in> set [''Item'', ''Thing'', ''Member of'', ''Descendent of'']"
    by simp
  have thing_tokens: "CHR '' '' \<notin> set ''kodi:kodi:familyroom''" "CHR '' '' \<notin> set ''ONLINE''"
    "CHR '' '' \<notin> set ''OFFLINE''"
    by simp_all
  have no_property: "ThingStatus example_host ''old_state'' = None"
    by (simp add: example_host_def)
  then have thing_status: "''Thing'' = ''Thing'' \<longrightarrow> ThingStatus example_host ''old_state'' = None"
    by simp
  show ?thesis
    using type tokens returns no_property
      qualifier_order [OF type tokens status, where w = new_world
        and func = "\<lparr>triggers = None\<rparr>"]
      qualifier_order [OF thing_type thing_tokens thing_status, where w = new_world
        and func = "\<lparr>triggers = None\<rparr>"]
    by blast
qed

subsection \<open>What an accepted expression guarantees\<close>

text \<open>
  A lifecycle trigger type (\<open>added\<close>, \<open>removed\<close>, \<open>modified\<close>) is only ever parsed for
  the target types \<open>Item\<close> and \<open>Thing\<close> (or as the text of a cron expression), so an
  accepted group expression always selects \<open>item_trigger\<close>.
\<close>

lemma join_first: "element0 il = Some x \<Longrightarrow> join [] (take (Suc 0) il) = x"
  by (cases il) auto

lemma parse_trigger_type_result:
  assumes "parse_trigger_type h expr v = Inr v'"
  shows "target_type v' = target_type v
       \<and> (trigger_type v' \<in> set [Some ''received update'', Some ''received command'',
                                  Some ''changed'', Some ''triggered'']
          \<or> target_type v \<in> set [Some ''Item'', Some ''Thing'', Some ''Time''])"
proof (cases "join '' '' (take 2 (input_list v)) = ''received update''")
  case True
  with assms show ?thesis
    by (auto simp: parse_trigger_type_def Let_def split: if_splits)
next
  case c1: False
  show ?thesis
  proof (cases "join '' '' (take 2 (input_list v)) = ''received command''")
    case True
    with assms c1 show ?thesis
      by (auto simp: parse_trigger_type_def Let_def split: if_splits)
  next
    case c2: False
    show ?thesis
    proof (cases "element0 (input_list v) = Some ''changed''")
      case True
      with assms c1 c2 show ?thesis
        by (auto simp: parse_trigger_type_def Let_def join_first split: if_splits)
    next
      case c3: False
      show ?thesis
      proof (cases "element0 (input_list v) = Some ''triggered''")
        case True
        with assms c1 c2 c3 show ?thesis
          by (auto simp: parse_trigger_type_def Let_def join_first split: if_splits)
      next
        case c4: False
        show ?thesis
        proof (cases "trigger_target v = Some ''cron''")
          case True
          with assms c1 c2 c3 c4 show ?thesis
            by (auto simp: parse_trigger_type_def Let_def split: if_splits)
        next
          case c5: False
          with assms c1 c2 c3 c4 show ?thesis
            by (auto simp: parse_trigger_type_def Let_def split: if_splits)
        qed
      qed
    qed
  qed
qed

lemma parse_step_lifecycle:
  assumes step: "parse_step h expr v = Inr v'"
    and inv: "lifecycle (trigger_type v)
      \<longrightarrow> target_type v \<in> set [Some ''Item'', Some ''Thing'', Some ''Time'']"
  shows "lifecycle (trigger_type v')
      \<longrightarrow> target_type v' \<in> set [Some ''Item'', Some ''Thing'', Some ''Time'']"
proof (cases "target_type v = None")
  case True
  then have "v' = parse_target_type v"
    using step by (auto simp: parse_step_def)
  then have "trigger_type v' = trigger_type v"
    by (simp add: parse_target_type_def Let_def)
  with True inv show ?thesis by auto
next
  case tt: False
  show ?thesis
  proof (cases "trigger_target v = None")
    case True
    then have "v' = parse_trigger_target v"
      using step tt by (auto simp: parse_step_def)
    then have "trigger_type v' = trigger_type v \<and> target_type v' = target_type v"
      by (simp add: parse_trigger_target_def Let_def)
    with inv show ?thesis by simp
  next
    case tg: False
    show ?thesis
    proof (cases "trigger_type v = None")
      case True
      then have "parse_trigger_type h expr v = Inr v'"
        using step tt tg by (auto simp: parse_step_def)
      then show ?thesis
        using parse_trigger_type_result [of h expr v v']
        by (auto simp: lifecycle_def)
    next
      case False
      then have "parse_qualifier expr v = Inr v'"
        using step tt tg by (auto simp: parse_step_def)
      then have "trigger_type v' = trigger_type v \<and> target_type v' = target_type v"
        unfolding parse_qualifier_def Let_def
        by (auto split: if_splits)
      with inv show ?thesis by simp
    qed
  qed
qed

lemma parse_loop_lifecycle:
  assumes "parse_loop h expr v = Inr v'"
    and "lifecycle (trigger_type v)
      \<longrightarrow> target_type v \<in> set [Some ''Item'', Some ''Thing'', Some ''Time'']"
  shows "lifecycle (trigger_type v')
      \<longrightarrow> target_type v' \<in> set [Some ''Item'', Some ''Thing'', Some ''Time'']"
  using assms
proof (induction h expr v rule: parse_loop.induct)
  case (1 h expr v)
  show ?case
  proof (cases "input_list v = []")
    case True
    with "1.prems" show ?thesis
      by (simp add: parse_loop.simps)
  next
    case False
    then obtain v1 where step: "parse_step h expr v = Inr v1"
      and rest: "parse_loop h expr v1 = Inr v'"
      using "1.prems"(1) by (subst (asm) parse_loop.simps) (auto split: sum.splits)
    show ?thesis
      using "1.IH" [OF False step rest] parse_step_lifecycle [OF step "1.prems"(2)]
      by blast
  qed
qed

lemma parse_expression_lifecycle:
  assumes "parse_expression h expr = Inr v"
  shows "lifecycle (trigger_type v)
      \<longrightarrow> target_type v \<in> set [Some ''Item'', Some ''Thing'', Some ''Time'']"
proof (cases "length (split (CHR '' '') expr) > 1")
  case True
  then have "parse_loop h expr (initial_vars (split (CHR '' '') expr)) = Inr v"
    using assms by (simp add: parse_expression_def initial_vars_def)
  then show ?thesis
    by (rule parse_loop_lifecycle) (simp add: initial_vars_def lifecycle_def)
next
  case False
  then show ?thesis
    using assms by (auto simp: parse_expression_def initial_vars_def)
qed

lemma else_if_accepts:
  "else_if c t rest = Inr () \<longleftrightarrow> c = Inr False \<and> rest = Inr ()"
  by (cases c) (auto simp: else_if_def)

lemma validate_accepts_group:
  assumes "validate h expr v = Inr ()"
    and "target_type v = Some ''Member of'' \<or> target_type v = Some ''Descendent of''"
    and "getItem h (trigger_target v) = Some g"
  shows "itype g = ''Group'' \<and> trigger_type v \<noteq> None"
proof -
  have "trigger_type_missing v = Inr False" and "not_a_group h v = Inr False"
    using assms(1) by (simp_all add: validate_def else_if_accepts)
  then show ?thesis
    using assms(2,3)
    by (auto simp: trigger_type_missing_def not_a_group_def with_item_def lifecycle_def)
qed


subsection \<open>Generated ids end with the UUID drawn last\<close>

lemma replace_underscores_id:
  "CHR ''_'' \<notin> set u \<Longrightarrow> replace_underscores u = u"
  by (induction u rule: replace_underscores.induct) auto

lemma dropWhile_underscores_append:
  assumes "CHR ''_'' \<notin> set u"
  shows "dropWhile (\<lambda>c. c = CHR ''_'') (cs @ u) = dropWhile (\<lambda>c. c = CHR ''_'') cs @ u"
proof (induction cs)
  case Nil
  show ?case using assms by (cases u) auto
next
  case (Cons c cs)
  then show ?case by simp
qed

lemma replace_underscores_append:
  assumes "CHR ''_'' \<notin> set u"
  shows "replace_underscores (q @ u) = replace_underscores q @ u"
proof (induction q rule: replace_underscores.induct)
  case (3 a b cs)
  then show ?case
    using assms by (simp add: dropWhile_underscores_append)
next
  case 1
  show ?case using assms by (simp add: replace_underscores_id)
next
  case (2 a)
  show ?case
  proof (cases u)
    case Nil
    then show ?thesis by simp
  next
    case (Cons b us)
    with assms have "b \<noteq> CHR ''_''" and "CHR ''_'' \<notin> set (b # us)"
      by auto
    then have "replace_underscores (b # us) = b # us"
      by (intro replace_underscores_id)
    with Cons \<open>b \<noteq> CHR ''_''\<close> show ?thesis by simp
  qed
qed

lemma match_underscores_append:
  assumes "CHR ''_'' \<notin> set u"
  shows "match_underscores (q @ u) = match_underscores q"
proof (induction q rule: match_underscores.induct)
  case (3 a b cs)
  then show ?case by simp
next
  case 1
  have "\<not> match_underscores u"
    using assms by (induction u rule: match_underscores.induct) auto
  then show ?case by simp
next
  case (2 a)
  have none: "\<not> match_underscores u"
    using assms by (induction u rule: match_underscores.induct) auto
  show ?case
  proof (cases u)
    case Nil
    then show ?thesis by simp
  next
    case (Cons b us)
    with assms have "b \<noteq> CHR ''_''" by auto
    with Cons none show ?thesis by simp
  qed
qed

lemma collapse_loop_append:
  assumes "CHR ''_'' \<notin> set u"
  shows "collapse_loop (q @ u) = collapse_loop q @ u"
proof (induction q rule: collapse_loop.induct)
  case (1 q)
  show ?case
  proof (cases "match_underscores q")
    case True
    then have "collapse_loop (q @ u) = collapse_loop (replace_underscores q @ u)"
      using assms
      by (subst collapse_loop.simps)
         (simp add: match_underscores_append replace_underscores_append)
    also have "\<dots> = collapse_loop (replace_underscores q) @ u"
      using True by (rule "1.IH")
    also have "collapse_loop (replace_underscores q) = collapse_loop q"
      using True by (subst (2) collapse_loop.simps) simp
    finally show ?thesis .
  next
    case False
    then have "collapse_loop (q @ u) = q @ u"
      using assms by (subst collapse_loop.simps) (simp add: match_underscores_append)
    moreover have "collapse_loop q = q"
      using False by (subst collapse_loop.simps) simp
    ultimately show ?thesis by simp
  qed
qed

lemma validate_uid_ends_with_uuid:
  assumes "CHR ''_'' \<notin> set fresh"
  shows "suffix fresh (validate_uid uid fresh)"
proof -
  obtain q where "validate_uid uid fresh = collapse_loop (q @ fresh)"
  proof (cases "truthy uid")
    case True
    show ?thesis
    proof (cases "match_leading_alnum (sanitize_loop (str_of uid) @ fresh)")
      case leading: True
      with True have "validate_uid uid fresh = collapse_loop (sanitize_loop (str_of uid) @ fresh)"
        by (simp add: validate_uid_def Let_def)
      then show ?thesis by (rule that)
    next
      case False
      with True have "validate_uid uid fresh
          = collapse_loop ((''javascript'' @ sanitize_loop (str_of uid)) @ fresh)"
        by (simp add: validate_uid_def Let_def)
      then show ?thesis by (rule that)
    qed
  next
    case False
    show ?thesis
    proof (cases "match_leading_alnum fresh")
      case leading: True
      with False have "validate_uid uid fresh = collapse_loop ([] @ fresh)"
        by (simp add: validate_uid_def Let_def)
      then show ?thesis by (rule that)
    next
      case leading: False
      with False have "validate_uid uid fresh = collapse_loop (''javascript'' @ fresh)"
        by (simp add: validate_uid_def Let_def)
      then show ?thesis by (rule that)
    qed
  qed
  then show ?thesis
    using collapse_loop_append [OF assms, of q] by (simp add: suffix_def)
qed

lemma member_trigger_id:
  assumes "uuid_string (randomUUID h (Suc k))"
  shows "suffix (randomUUID h (Suc k)) (trigger_id (member_trigger h v k member))"
proof -
  have "CHR ''_'' \<notin> set (randomUUID h (Suc k))"
    using assms by (rule uuid_string_no_underscore)
  then have "\<And>x. suffix (randomUUID h (Suc k)) (validate_uid x (randomUUID h (Suc k)))"
    by (rule validate_uid_ends_with_uuid)
  then show ?thesis
    by (simp add: member_trigger_def Let_def)
qed

lemma member_trigger_itemName:
  "configuration (member_trigger h v k member) ''itemName'' = Some (CStr (name member))"
  by (cases "old_state v"; cases "new_state v") (simp_all add: member_trigger_def Let_def)


lemma member_triggers_itemName:
  "map (\<lambda>t. configuration t ''itemName'') (member_triggers h v k members)
   = map (\<lambda>member. Some (CStr (name member))) members"
  by (induction members arbitrary: k) (simp_all add: member_trigger_itemName)

lemma length_member_triggers: "length (member_triggers h v k members) = length members"
  by (induction members arbitrary: k) simp_all

lemma member_triggers_ids:
  assumes "\<forall>i < length members. uuid_string (randomUUID h (k + 2 * i + 1))"
  shows "list_all2 (\<lambda>t i. suffix (randomUUID h i) (trigger_id t))
           (member_triggers h v k members) (map (\<lambda>i. k + 2 * i + 1) [0..<length members])"
  using assms
proof (induction members arbitrary: k)
  case Nil
  show ?case by simp
next
  case (Cons member members)
  have first: "suffix (randomUUID h (Suc k)) (trigger_id (member_trigger h v k member))"
    using Cons.prems by (intro member_trigger_id) auto
  have "\<forall>i < length members. uuid_string (randomUUID h (k + 2 + 2 * i + 1))"
  proof (intro allI impI)
    fix i assume "i < length members"
    then have "uuid_string (randomUUID h (k + 2 * Suc i + 1))"
      using Cons.prems by auto
    then show "uuid_string (randomUUID h (k + 2 + 2 * i + 1))"
      by (simp add: add.commute add.left_commute)
  qed
  then have rest: "list_all2 (\<lambda>t i. suffix (randomUUID h i) (trigger_id t))
           (member_triggers h v (k + 2) members)
           (map (\<lambda>i. k + 2 + 2 * i + 1) [0..<length members])"
    by (rule Cons.IH)
  have "map (\<lambda>i. k + 2 * i + 1) [0..<length (member # members)]
      = Suc k # map (\<lambda>i. k + 2 + 2 * i + 1) [0..<length members]"
    by (simp add: map_upt_Suc del: upt_Suc)
  with first rest show ?case by simp
qed

lemma suffix_same_length:
  "suffix a s \<Longrightarrow> suffix b s \<Longrightarrow> length a = length b \<Longrightarrow> a = b"
  by (auto simp: suffix_def)

lemma distinct_by_suffix:
  assumes "list_all2 (\<lambda>x u. suffix u (f x)) xs us"
    and "distinct us" and "\<forall>u \<in> set us. length u = n"
  shows "distinct (map f xs)"
  using assms
proof (induction rule: list_all2_induct)
  case Nil
  show ?case by simp
next
  case (Cons x xs u us)
  have "f x \<notin> f ` set xs"
  proof
    assume "f x \<in> f ` set xs"
    then obtain x' where x': "x' \<in> set xs" "f x' = f x" by auto
    then obtain i where i: "i < length xs" "xs ! i = x'"
      by (auto simp: in_set_conv_nth)
    have "length xs = length us" and "suffix (us ! i) (f (xs ! i))"
      using Cons.hyps(2) i(1) by (auto simp: list_all2_conv_all_nth)
    then have "us ! i \<in> set us" and "suffix (us ! i) (f x')"
      using i by auto
    then obtain u' where u': "u' \<in> set us" "suffix u' (f x')"
      by blast
    have "u' = u"
      using u' x' Cons.hyps(1) Cons.prems(2)
      by (intro suffix_same_length [of u' "f x" u]) auto
    with u' Cons.prems(1) show False by simp
  qed
  with Cons show ?case by simp
qed


text \<open>
  Claim C2.  For every accepted expression whose target type is \<open>Member of\<close> or
  \<open>Descendent of\<close> and whose target is a group with member list \<open>members\<close> (the direct
  members, respectively all descendants, as the host returns them), the function that
  \<open>when\<close> returns attaches exactly one spec per member, in order, each naming its
  member in \<open>itemName\<close>.  When the UUIDs drawn are pairwise different, all ids are
  different, also across a second \<open>when\<close> call with the same expression applied to the
  same callback object.
\<close>

lemma existing_attached:
  "existing (if specs = [] then func else func\<lparr>triggers := Some (existing func @ specs)\<rparr>)
   = existing func @ specs"
  by (simp add: existing_def)

theorem group_fan_out:
  assumes parsed: "parse_expression h expr = Inr p"
    and valid: "validate h expr p = Inr ()"
    and type: "target_type p = Some ''Member of'' \<or> target_type p = Some ''Descendent of''"
    and group: "getItem h (trigger_target p) = Some g"
    and members: "members = (if target_type p = Some ''Member of'' then getMembers g
                             else getAllMembers g)"
    and uuids: "list_all uuid_string
        (map (randomUUID h) [uuids_drawn w ..< uuids_drawn w + 4 * length members + 2])"
    and fresh: "distinct
        (map (randomUUID h) [uuids_drawn w ..< uuids_drawn w + 4 * length members + 2])"
  shows "\<exists>b1 w1 func1 w2 b2 w3 func2 w4 specs1 specs2.
      when h w expr = (Inr b1, w1) \<and> call h w1 b1 func = Inr (func1, w2)
    \<and> when h w2 expr = (Inr b2, w3) \<and> call h w3 b2 func1 = Inr (func2, w4)
    \<and> existing func1 = existing func @ map Some specs1
    \<and> existing func2 = existing func1 @ map Some specs2
    \<and> length specs1 = length members \<and> length specs2 = length members
    \<and> map (\<lambda>t. configuration t ''itemName'') specs1
        = map (\<lambda>member. Some (CStr (name member))) members
    \<and> map (\<lambda>t. configuration t ''itemName'') specs2
        = map (\<lambda>member. Some (CStr (name member))) members
    \<and> distinct (map trigger_id (specs1 @ specs2))"
proof -
  define k0 where "k0 = uuids_drawn w"
  define n where "n = length members"
  have is_group: "itype g = ''Group''" and has_type: "trigger_type p \<noteq> None"
    using validate_accepts_group [OF valid type group] by simp_all
  then obtain tt where tt: "trigger_type p = Some tt" by auto
  have event: "\<not> lifecycle (trigger_type p)"
    using parse_expression_lifecycle [OF parsed] type by auto
  have gm: "\<And>u. group_members_of (p\<lparr>trigger_name := u\<rparr>) g = Inr members"
    using type members is_group by (auto simp: group_members_of_def)
  have builder: "\<And>u. select_builder (p\<lparr>trigger_name := u\<rparr>) = Item_trigger (p\<lparr>trigger_name := u\<rparr>)"
    using type event by (auto simp: select_builder_def)
  \<comment> \<open>the first call of \<open>when\<close> and of the function it returns\<close>
  define v1 where "v1 = p\<lparr>trigger_name := Some (validate_uid (or_else (trigger_name p) expr)
                                (randomUUID h (uuids_drawn w)))\<rparr>"
  define w1 where "w1 = w\<lparr>uuids_drawn := Suc (uuids_drawn w),
                           log := log w @ [parsed_trace expr p]\<rparr>"
  have when1: "when h w expr = (Inr (Item_trigger v1), w1)"
    using when_eq [OF parsed valid, of w] builder by (simp add: v1_def w1_def)
  define specs1 where "specs1 = member_triggers h v1 (uuids_drawn w1) members"
  obtain l1 where call1: "item_trigger h w1 v1 func =
     Inr (if members = [] then func
          else func\<lparr>triggers := Some (existing func @ map Some specs1)\<rparr>,
          w1\<lparr>uuids_drawn := uuids_drawn w1 + 2 * length members, log := log w1 @ l1\<rparr>)"
    using item_trigger_eq [of h v1 g members tt w1 func] group gm tt
    by (auto simp: v1_def specs1_def)
  define func1 where "func1 = (if members = [] then func
          else func\<lparr>triggers := Some (existing func @ map Some specs1)\<rparr>)"
  define w2 where "w2 = w1\<lparr>uuids_drawn := uuids_drawn w1 + 2 * length members,
                            log := log w1 @ l1\<rparr>"
  \<comment> \<open>the second call, with the same expression\<close>
  define v2 where "v2 = p\<lparr>trigger_name := Some (validate_uid (or_else (trigger_name p) expr)
                                (randomUUID h (uuids_drawn w2)))\<rparr>"
  define w3 where "w3 = w2\<lparr>uuids_drawn := Suc (uuids_drawn w2),
                            log := log w2 @ [parsed_trace expr p]\<rparr>"
  have when2: "when h w2 expr = (Inr (Item_trigger v2), w3)"
    using when_eq [OF parsed valid, of w2] builder by (simp add: v2_def w3_def)
  define specs2 where "specs2 = member_triggers h v2 (uuids_drawn w3) members"
  obtain l2 where call2: "item_trigger h w3 v2 func1 =
     Inr (if members = [] then func1
          else func1\<lparr>triggers := Some (existing func1 @ map Some specs2)\<rparr>,
          w3\<lparr>uuids_drawn := uuids_drawn w3 + 2 * length members, log := log w3 @ l2\<rparr>)"
    using item_trigger_eq [of h v2 g members tt w3 func1] group gm tt
    by (auto simp: v2_def specs2_def)
  define func2 where "func2 = (if members = [] then func1
          else func1\<lparr>triggers := Some (existing func1 @ map Some specs2)\<rparr>)"
  define w4 where "w4 = w3\<lparr>uuids_drawn := uuids_drawn w3 + 2 * length members,
                            log := log w3 @ l2\<rparr>"
  have empty1: "members = [] \<longleftrightarrow> map Some specs1 = []"
    and empty2: "members = [] \<longleftrightarrow> map Some specs2 = []"
    using length_member_triggers [of h v1 "uuids_drawn w1" members]
      length_member_triggers [of h v2 "uuids_drawn w3" members]
    by (auto simp: specs1_def specs2_def)
  have e1: "existing func1 = existing func @ map Some specs1"
    unfolding func1_def empty1 by (rule existing_attached)
  have e2: "existing func2 = existing func1 @ map Some specs2"
    unfolding func2_def empty2 by (rule existing_attached)
  \<comment> \<open>the UUIDs that end the ids\<close>
  have k1: "uuids_drawn w1 = Suc k0" and k3: "uuids_drawn w3 = k0 + 2 * n + 2"
    by (simp_all add: w1_def w2_def w3_def k0_def n_def)
  define is1 where "is1 = map (\<lambda>i. Suc k0 + 2 * i + 1) [0..<n]"
  define is2 where "is2 = map (\<lambda>i. (k0 + 2 * n + 2) + 2 * i + 1) [0..<n]"
  have range: "set (is1 @ is2) \<subseteq> {k0..<k0 + 4 * n + 2}"
    by (auto simp: is1_def is2_def)
  have shaped: "uuid_string (randomUUID h j)" if "j \<in> {k0..<k0 + 4 * n + 2}" for j
  proof -
    have "j \<in> set [uuids_drawn w ..< uuids_drawn w + 4 * length members + 2]"
      using that unfolding k0_def n_def by (simp only: set_upt)
    then have "randomUUID h j
        \<in> set (map (randomUUID h) [uuids_drawn w ..< uuids_drawn w + 4 * length members + 2])"
      unfolding set_map by (rule imageI)
    with uuids show ?thesis
      unfolding list_all_iff by blast
  qed
  have "list_all2 (\<lambda>t i. suffix (randomUUID h i) (trigger_id t)) specs1 is1"
    unfolding specs1_def is1_def k1 n_def
    by (rule member_triggers_ids) (auto intro!: shaped simp: n_def)
  moreover have "list_all2 (\<lambda>t i. suffix (randomUUID h i) (trigger_id t)) specs2 is2"
    unfolding specs2_def is2_def k3 n_def
    by (rule member_triggers_ids) (auto intro!: shaped simp: n_def)
  ultimately have ends: "list_all2 (\<lambda>t u. suffix u (trigger_id t)) (specs1 @ specs2)
      (map (randomUUID h) (is1 @ is2))"
    by (simp add: list_all2_map2 list_all2_appendI)
  have "inj_on (randomUUID h) (set [uuids_drawn w ..< uuids_drawn w + 4 * length members + 2])"
    using fresh by (simp only: distinct_map)
  then have "inj_on (randomUUID h) {k0..<k0 + 4 * n + 2}"
    unfolding k0_def n_def by (simp only: set_upt)
  then have inj: "inj_on (randomUUID h) (set (is1 @ is2))"
    using range by (rule inj_on_subset)
  have "distinct (is1 @ is2)"
    by (auto simp: is1_def is2_def distinct_map inj_on_def)
  then have different: "distinct (map (randomUUID h) (is1 @ is2))"
    unfolding distinct_map using inj by (rule conjI)
  have "\<forall>u \<in> set (map (randomUUID h) (is1 @ is2)). length u = 36"
    using range shaped by (auto simp: uuid_string_def)
  with ends different have ids: "distinct (map trigger_id (specs1 @ specs2))"
    by (rule distinct_by_suffix)
  have "call h w1 (Item_trigger v1) func = Inr (func1, w2)"
    using call1 by (simp add: func1_def w2_def)
  moreover have "call h w3 (Item_trigger v2) func1 = Inr (func2, w4)"
    using call2 by (simp add: func2_def w4_def)
  moreover have "length specs1 = length members" and "length specs2 = length members"
    by (simp_all add: specs1_def specs2_def length_member_triggers)
  moreover have "map (\<lambda>t. configuration t ''itemName'') specs1
        = map (\<lambda>member. Some (CStr (name member))) members"
    and "map (\<lambda>t. configuration t ''itemName'') specs2
        = map (\<lambda>member. Some (CStr (name member))) members"
    by (simp_all add: specs1_def specs2_def member_triggers_itemName)
  ultimately show ?thesis
    using when1 when2 e1 e2 ids by blast
qed


theorem group_fan_out_witness:
  "parse_expression example_host ''Member of gMotion_Sensors changed'' =
     Inr \<lparr>input_list = [], target_type = Some ''Member of'',
          trigger_target = Some ''gMotion_Sensors'', trigger_type = Some ''changed'',
          trigger_name = None, old_state = None, new_state = None\<rparr>
   \<and> validate example_host ''Member of gMotion_Sensors changed''
         \<lparr>input_list = [], target_type = Some ''Member of'',
          trigger_target = Some ''gMotion_Sensors'', trigger_type = Some ''changed'',
          trigger_name = None, old_state = None, new_state = None\<rparr> = Inr ()
   \<and> getItem example_host (Some ''gMotion_Sensors'') = Some gMotion_Sensors
   \<and> length (getMembers gMotion_Sensors) = 2
   \<and> list_all uuid_string (map (randomUUID example_host) [0 ..< 10])
   \<and> distinct (map (randomUUID example_host) [0 ..< 10])
   \<and> (\<exists>b1 w1 func1 w2 b2 w3 func2 w4 specs1 specs2.
        when example_host new_world ''Member of gMotion_Sensors changed'' = (Inr b1, w1)
      \<and> call example_host w1 b1 \<lparr>triggers = None\<rparr> = Inr (func1, w2)
      \<and> when example_host w2 ''Member of gMotion_Sensors changed'' = (Inr b2, w3)
      \<and> call example_host w3 b2 func1 = Inr (func2, w4)
      \<and> existing func1 = map Some specs1
      \<and> existing func2 = existing func1 @ map Some specs2
      \<and> length specs1 = 2 \<and> length specs2 = 2
      \<and> map (\<lambda>t. configuration t ''itemName'') specs1
          = [Some (CStr ''Hall_Motion''), Some (CStr ''Porch_Motion'')]
      \<and> map (\<lambda>t. configuration t ''itemName'') specs2
          = [Some (CStr ''Hall_Motion''), Some (CStr ''Porch_Motion'')]
      \<and> distinct (map trigger_id (specs1 @ specs2)))"
proof -
  let ?p = "\<lparr>input_list = [], target_type = Some ''Member of'',
          trigger_target = Some ''gMotion_Sensors'', trigger_type = Some ''changed'',
          trigger_name = None, old_state = None, new_state = None\<rparr>"
  have parsed: "parse_expression example_host ''Member of gMotion_Sensors changed'' = Inr ?p"
    by code_simp
  have valid: "validate example_host ''Member of gMotion_Sensors changed'' ?p = Inr ()"
    by code_simp
  have type: "target_type ?p = Some ''Member of'' \<or> target_type ?p = Some ''Descendent of''"
    by simp
  have group: "getItem example_host (trigger_target ?p) = Some gMotion_Sensors"
    by (simp add: example_host_def)
  have members: "getMembers gMotion_Sensors =
      (if target_type ?p = Some ''Member of'' then getMembers gMotion_Sensors
       else getAllMembers gMotion_Sensors)"
    by simp
  have two: "length (getMembers gMotion_Sensors) = 2"
    by (simp add: gMotion_Sensors_def)
  have upto: "[uuids_drawn new_world ..<
      uuids_drawn new_world + 4 * length (getMembers gMotion_Sensors) + 2] = [0 ..< 10]"
    by (simp add: two new_world_def)
  have uuids: "list_all uuid_string (map (randomUUID example_host) [0 ..< 10])"
    by code_simp
  have fresh: "distinct (map (randomUUID example_host) [0 ..< 10])"
    by code_simp
  have names: "map (\<lambda>member. Some (CStr (name member))) (getMembers gMotion_Sensors)
      = [Some (CStr ''Hall_Motion''), Some (CStr ''Porch_Motion'')]"
    by (simp add: gMotion_Sensors_def switch_item_def)
  have empty: "existing \<lparr>triggers = None\<rparr> = []"
    by (simp add: existing_def)
  have uuids_drawn: "list_all uuid_string (map (randomUUID example_host)
      [uuids_drawn new_world ..<
       uuids_drawn new_world + 4 * length (getMembers gMotion_Sensors) + 2])"
    unfolding upto by (rule uuids)
  have fresh_drawn: "distinct (map (randomUUID example_host)
      [uuids_drawn new_world ..<
       uuids_drawn new_world + 4 * length (getMembers gMotion_Sensors) + 2])"
    unfolding upto by (rule fresh)
  show ?thesis
    using parsed valid group two uuids fresh
      group_fan_out [OF parsed valid type group members uuids_drawn fresh_drawn,
        where func = "\<lparr>triggers = None\<rparr>"]
    by (simp add: names empty)
qed

subsection \<open>Errors raised while parsing and validating\<close>

lemma parse_trigger_type_error:
  assumes "parse_trigger_type h expr v = Inl e"
  shows "\<exists>rest. e = RangeError (''when: '' @ quoted expr @ rest)"
  using assms unfolding parse_trigger_type_def invalid_for_target_type_def Let_def
  by (simp split: if_splits) blast+

lemma parse_qualifier_error:
  assumes "parse_qualifier expr v = Inl e"
  shows "\<exists>rest. e = RangeError (''when: '' @ quoted expr @ rest)"
  using assms unfolding parse_qualifier_def Let_def
  by (simp split: if_splits) blast+

lemma parse_step_error:
  assumes "parse_step h expr v = Inl e"
  shows "\<exists>rest. e = RangeError (''when: '' @ quoted expr @ rest)"
  using assms parse_trigger_type_error [of h expr v e] parse_qualifier_error [of expr v e]
  by (simp add: parse_step_def split: if_splits)

lemma parse_loop_error:
  assumes "parse_loop h expr v = Inl e"
  shows "\<exists>rest. e = RangeError (''when: '' @ quoted expr @ rest)"
  using assms
proof (induction h expr v rule: parse_loop.induct)
  case (1 h expr v)
  show ?case
  proof (cases "input_list v = []")
    case True
    with "1.prems" show ?thesis by (simp add: parse_loop.simps)
  next
    case False
    show ?thesis
    proof (cases "parse_step h expr v")
      case (Inl e')
      with False "1.prems" have "e' = e"
        by (subst (asm) parse_loop.simps) simp
      with Inl have "parse_step h expr v = Inl e" by simp
      then show ?thesis by (rule parse_step_error)
    next
      case (Inr v')
      with False "1.prems" have "parse_loop h expr v' = Inl e"
        by (subst (asm) parse_loop.simps) simp
      with False Inr show ?thesis by (intro "1.IH")
    qed
  qed
qed

lemma parse_expression_error:
  assumes "parse_expression h expr = Inl e"
  shows "\<exists>rest. e = RangeError (''when: '' @ quoted expr @ rest)"
  using assms parse_loop_error [of h expr "initial_vars (split (CHR '' '') expr)" e]
  by (simp add: parse_expression_def Let_def initial_vars_def split: if_splits)

lemma conditions_throw_no_RangeError:
  "target_type_invalid v \<noteq> Inl (RangeError m)"
  "trigger_type_missing v \<noteq> Inl (RangeError m)"
  "item_not_in_registry h v \<noteq> Inl (RangeError m)"
  "not_a_group h v \<noteq> Inl (RangeError m)"
  "old_state_invalid h v \<noteq> Inl (RangeError m)"
  "new_state_invalid h v \<noteq> Inl (RangeError m)"
  "command_invalid h v \<noteq> Inl (RangeError m)"
  "thing_not_in_registry h v \<noteq> Inl (RangeError m)"
  "old_status_invalid h v \<noteq> Inl (RangeError m)"
  "new_status_invalid h v \<noteq> Inl (RangeError m)"
  "channel_missing h v \<noteq> Inl (RangeError m)"
  "not_a_trigger_channel h v \<noteq> Inl (RangeError m)"
  "system_target_invalid v \<noteq> Inl (RangeError m)"
  by (simp_all add: target_type_invalid_def trigger_type_missing_def
      item_not_in_registry_def not_a_group_def old_state_invalid_def new_state_invalid_def
      command_invalid_def thing_not_in_registry_def old_status_invalid_def
      new_status_invalid_def channel_missing_def not_a_trigger_channel_def
      system_target_invalid_def with_item_def split: option.splits)

lemma else_if_throws:
  "else_if c t rest = Inl e \<longleftrightarrow>
     c = Inl e \<or> (c = Inr True \<and> t = e) \<or> (c = Inr False \<and> rest = Inl e)"
  by (cases c) (auto simp: else_if_def)

lemma validate_error:
  assumes "validate h expr v = Inl (RangeError m)"
  shows "(\<exists>rest. m = ''when: '' @ quoted expr @ rest)
       \<or> (target_type v = Some ''Thing''
          \<and> (\<exists>s. (old_state v = Some s \<or> new_state v = Some s)
                 \<and> m = ''when: '' @ quoted s @ '' is not a valid Thing status''))"
proof -
  consider (expression) rest where "m = ''when: '' @ quoted expr @ rest"
    | (old) "old_status_invalid h v = Inr True"
        "m = ''when: '' @ quoted (str_of (old_state v)) @ '' is not a valid Thing status''"
    | (new) "new_status_invalid h v = Inr True"
        "m = ''when: '' @ quoted (str_of (new_state v)) @ '' is not a valid Thing status''"
    using assms unfolding validate_def else_if_throws
    by (elim disjE conjE) (auto simp: conditions_throw_no_RangeError could_not_be_parsed_def)
  then show ?thesis
  proof cases
    case expression
    then show ?thesis by blast
  next
    case old
    then show ?thesis
      by (auto simp: old_status_invalid_def)
  next
    case new
    then show ?thesis
      by (auto simp: new_status_invalid_def)
  qed
qed

lemma when_try_error:
  assumes "when_try h w expr = Inl (RangeError m)"
  shows "(\<exists>rest. m = ''when: '' @ quoted expr @ rest)
       \<or> (\<exists>p s. parse_expression h expr = Inr p \<and> target_type p = Some ''Thing''
                \<and> (old_state p = Some s \<or> new_state p = Some s)
                \<and> m = ''when: '' @ quoted s @ '' is not a valid Thing status'')"
proof (cases "parse_expression h expr")
  case (Inl e)
  with assms have "e = RangeError m"
    by (simp add: when_try_def)
  with Inl parse_expression_error [of h expr e] show ?thesis by simp
next
  case (Inr v)
  show ?thesis
  proof (cases "validate h expr v")
    case (Inl e)
    with Inr assms have "validate h expr v = Inl (RangeError m)"
      by (simp add: when_try_def)
    then show ?thesis
      using validate_error [of h expr v m] Inr by blast
  next
    case accepted: (Inr u)
    with Inr assms show ?thesis
      by (simp add: when_try_def Let_def split: prod.splits)
  qed
qed

text \<open>
  Claim C1, as amended.  Whenever parsing or validating an expression raises a
  \<open>RangeError\<close>, \<open>when\<close> does not propagate it: it logs exactly one warning, the
  error's message, and returns \<open>bad_trigger\<close>, which appends exactly one \<open>null\<close> marker
  and no trigger spec to the callback object it is applied to.  The message contains
  the original expression, with one exception: the Thing-status error, raised only
  for an expression that parses with target type Thing, whose message is
  \<open>when: 's' is not a valid Thing status\<close> for the status \<open>s\<close> the expression gives
  as its old or new state, and nothing else.
\<close>

theorem range_error_is_caught:
  assumes "when_try h w expr = Inl (RangeError message)"
  shows "when h w expr = (Inr Bad_trigger, w\<lparr>log := log w @ [Warn message]\<rparr>)
       \<and> call h w' Bad_trigger func
           = Inr (func\<lparr>triggers := Some (existing func @ [None])\<rparr>, w')
       \<and> (sublist expr message
          \<or> (\<exists>p s. parse_expression h expr = Inr p \<and> target_type p = Some ''Thing''
                \<and> (old_state p = Some s \<or> new_state p = Some s)
                \<and> message = ''when: '' @ quoted s @ '' is not a valid Thing status''))"
proof -
  have "when h w expr = (Inr Bad_trigger, w\<lparr>log := log w @ [Warn message]\<rparr>)"
    using assms by (simp add: when_def LOG_warn_def)
  moreover have "call h w' Bad_trigger func
      = Inr (func\<lparr>triggers := Some (existing func @ [None])\<rparr>, w')"
    by (simp add: bad_trigger_def add_trigger_eq)
  moreover have "sublist expr message
      \<or> (\<exists>p s. parse_expression h expr = Inr p \<and> target_type p = Some ''Thing''
                \<and> (old_state p = Some s \<or> new_state p = Some s)
                \<and> message = ''when: '' @ quoted s @ '' is not a valid Thing status'')"
  proof -
    consider rest where "message = ''when: '' @ quoted expr @ rest"
      | "\<exists>p s. parse_expression h expr = Inr p \<and> target_type p = Some ''Thing''
                \<and> (old_state p = Some s \<or> new_state p = Some s)
                \<and> message = ''when: '' @ quoted s @ '' is not a valid Thing status''"
      using when_try_error [OF assms] by blast
    then show ?thesis
    proof cases
      case 1
      then have "message = (''when: '' @ apostrophe) @ expr @ (apostrophe @ rest)"
        by (simp add: quoted_def)
      then have "sublist expr message"
        by (simp only: sublist_appendI)
      then show ?thesis by simp
    next
      case 2
      then show ?thesis by blast
    qed
  qed
  ultimately show ?thesis by blast
qed

theorem range_error_is_caught_witness:
  "when_try example_host new_world ''Member of Test_Switch_1 changed''
     = Inl (RangeError (''when: 'Member of Test_Switch_1 changed' could not be parsed because 'Member of' ''
         @ ''was specified, but 'Test_Switch_1' is not a group''))
   \<and> when example_host new_world ''Member of Test_Switch_1 changed''
     = (Inr Bad_trigger,
        \<lparr>uuids_drawn = 0,
          log = [Warn (''when: 'Member of Test_Switch_1 changed' could not be parsed because 'Member of' ''
                  @ ''was specified, but 'Test_Switch_1' is not a group'')]\<rparr>)
   \<and> call example_host new_world Bad_trigger \<lparr>triggers = None\<rparr>
     = Inr (\<lparr>triggers = Some [None]\<rparr>, new_world)
   \<and> sublist ''Member of Test_Switch_1 changed''
       (''when: 'Member of Test_Switch_1 changed' could not be parsed because 'Member of' ''
         @ ''was specified, but 'Test_Switch_1' is not a group'')"
proof -
  have raised: "when_try example_host new_world ''Member of Test_Switch_1 changed''
     = Inl (RangeError (''when: 'Member of Test_Switch_1 changed' could not be parsed because 'Member of' ''
         @ ''was specified, but 'Test_Switch_1' is not a group''))"
    by code_simp
  have found: "sublist ''Member of Test_Switch_1 changed''
       (''when: 'Member of Test_Switch_1 changed' could not be parsed because 'Member of' ''
         @ ''was specified, but 'Test_Switch_1' is not a group'')"
    by code_simp
  show ?thesis
    using raised found
      range_error_is_caught [OF raised, where w' = new_world
        and func = "\<lparr>triggers = None\<rparr>"]
    by (simp add: new_world_def existing_def)
qed

text \<open>
  The claim as the specification states it, that every such warning carries the
  original expression, fails for a Thing status: the source builds that message from
  the status value alone.
\<close>

theorem thing_status_warning_omits_expression:
  "when_try example_host new_world ''Thing kodi:kodi:familyroom received update BOGUS''
     = Inl (RangeError ''when: 'BOGUS' is not a valid Thing status'')
   \<and> when example_host new_world ''Thing kodi:kodi:familyroom received update BOGUS''
     = (Inr Bad_trigger,
        \<lparr>uuids_drawn = 0, log = [Warn ''when: 'BOGUS' is not a valid Thing status'']\<rparr>)
   \<and> \<not> sublist ''Thing kodi:kodi:familyroom received update BOGUS''
         ''when: 'BOGUS' is not a valid Thing status''"
  by code_simp

subsection \<open>What a returned function does to the callback object\<close>

lemma appended_add_trigger: "appended func (add_trigger func t) [t]"
  by (simp add: appended_def existing_add_trigger more_add_trigger triggers_add_trigger)

lemma item_event_trigger_appends:
  "\<exists>t w'. item_event_trigger h w v func = (add_trigger func (Some t), w')"
  by (auto simp: item_event_trigger_def Let_def split: prod.splits)

lemma cron_trigger_appends:
  "\<exists>t w'. cron_trigger h w v func = (add_trigger func (Some t), w')"
  by (auto simp: cron_trigger_def Let_def split: prod.splits)

lemma system_trigger_appends:
  "\<exists>t w'. system_trigger h w v func = (add_trigger func (Some t), w')"
  by (auto simp: system_trigger_def Let_def split: prod.splits)

lemma thing_trigger_appends:
  "\<exists>t w'. thing_trigger h w v func = (add_trigger func (Some t), w')"
  by (auto simp: thing_trigger_def Let_def split: prod.splits)

lemma thing_event_trigger_appends:
  "\<exists>t w'. thing_event_trigger h w v func = (add_trigger func (Some t), w')"
  by (auto simp: thing_event_trigger_def Let_def split: prod.splits)

lemma channel_trigger_appends:
  "\<exists>t w'. channel_trigger h w v func = (add_trigger func (Some t), w')"
  by (auto simp: channel_trigger_def Let_def split: prod.splits)

text \<open>Every function but \<open>item_trigger\<close> appends exactly one entry: the \<open>null\<close> marker
  for \<open>bad_trigger\<close>, a trigger spec for the others.\<close>

lemma call_appends_one:
  assumes "\<And>v. b \<noteq> Item_trigger v" and "b \<noteq> Undefined_builder"
  shows "\<exists>t w'. call h w b func = Inr (add_trigger func t, w')
           \<and> (b = Bad_trigger \<longleftrightarrow> t = None)"
proof (cases b)
  case (Item_trigger v)
  with assms(1) show ?thesis by blast
next
  case (Item_event_trigger v)
  then show ?thesis
    using item_event_trigger_appends [of h w v func] by auto
next
  case (Cron_trigger v)
  then show ?thesis
    using cron_trigger_appends [of h w v func] by auto
next
  case (System_trigger v)
  then show ?thesis
    using system_trigger_appends [of h w v func] by auto
next
  case (Thing_trigger v)
  then show ?thesis
    using thing_trigger_appends [of h w v func] by auto
next
  case (Thing_event_trigger v)
  then show ?thesis
    using thing_event_trigger_appends [of h w v func] by auto
next
  case (Channel_trigger v)
  then show ?thesis
    using channel_trigger_appends [of h w v func] by auto
next
  case Bad_trigger
  then show ?thesis by (simp add: bad_trigger_def)
next
  case Undefined_builder
  with assms show ?thesis by simp
qed

lemma split_tokens: "t \<in> set (split d s) \<Longrightarrow> d \<notin> set t"
proof (induction s arbitrary: t)
  case Nil
  then show ?case by simp
next
  case (Cons c cs)
  then show ?case
    by (cases "split d cs") (auto split: if_splits)
qed

lemma parse_qualifier_target_type:
  assumes "parse_qualifier expr v = Inr v'"
  shows "target_type v' = target_type v"
  using assms unfolding parse_qualifier_def Let_def
  by (auto split: if_splits)

lemma parse_target_type_not_Item_Event:
  assumes "\<forall>t \<in> set (input_list v). CHR '' '' \<notin> set t"
  shows "target_type (parse_target_type v) \<noteq> Some ''Item Event''"
proof (cases "input_list v")
  case Nil
  then show ?thesis by (simp add: parse_target_type_def Let_def)
next
  case (Cons t ts)
  with assms have "CHR '' '' \<notin> set t" by simp
  then have "t \<noteq> ''Item Event''" by auto
  with Cons show ?thesis
    by (auto simp: parse_target_type_def Let_def)
qed

lemma parse_step_target_type:
  assumes step: "parse_step h expr v = Inr v'"
    and inv: "(target_type v = None \<longrightarrow> (\<forall>t \<in> set (input_list v). CHR '' '' \<notin> set t))
              \<and> target_type v \<noteq> Some ''Item Event''"
  shows "(target_type v' = None \<longrightarrow> (\<forall>t \<in> set (input_list v'). CHR '' '' \<notin> set t))
              \<and> target_type v' \<noteq> Some ''Item Event''"
proof (cases "target_type v = None")
  case True
  then have v': "v' = parse_target_type v"
    using step by (auto simp: parse_step_def)
  have "target_type v' \<noteq> None"
    unfolding v' by (simp add: parse_target_type_def Let_def)
  moreover have "target_type v' \<noteq> Some ''Item Event''"
    unfolding v' using True inv by (intro parse_target_type_not_Item_Event) simp
  ultimately show ?thesis by auto
next
  case tt: False
  have "target_type v' = target_type v"
  proof (cases "trigger_target v = None")
    case True
    then have "v' = parse_trigger_target v"
      using step tt by (auto simp: parse_step_def)
    then show ?thesis
      by (simp add: parse_trigger_target_def Let_def)
  next
    case tg: False
    show ?thesis
    proof (cases "trigger_type v = None")
      case True
      then have "parse_trigger_type h expr v = Inr v'"
        using step tt tg by (auto simp: parse_step_def)
      then show ?thesis
        using parse_trigger_type_result [of h expr v v'] by simp
    next
      case False
      then have "parse_qualifier expr v = Inr v'"
        using step tt tg by (auto simp: parse_step_def)
      then show ?thesis by (rule parse_qualifier_target_type)
    qed
  qed
  with tt inv show ?thesis by auto
qed

lemma parse_loop_target_type:
  assumes "parse_loop h expr v = Inr v'"
    and "(target_type v = None \<longrightarrow> (\<forall>t \<in> set (input_list v). CHR '' '' \<notin> set t))
              \<and> target_type v \<noteq> Some ''Item Event''"
  shows "target_type v' \<noteq> Some ''Item Event''"
  using assms
proof (induction h expr v rule: parse_loop.induct)
  case (1 h expr v)
  show ?case
  proof (cases "input_list v = []")
    case True
    with "1.prems" show ?thesis
      by (simp add: parse_loop.simps)
  next
    case False
    then obtain v1 where step: "parse_step h expr v = Inr v1"
      and rest: "parse_loop h expr v1 = Inr v'"
      using "1.prems"(1) by (subst (asm) parse_loop.simps) (auto split: sum.splits)
    show ?thesis
      using "1.IH" [OF False step rest] parse_step_target_type [OF step "1.prems"(2)]
      by blast
  qed
qed

lemma parse_expression_target_type:
  assumes "parse_expression h expr = Inr v"
  shows "target_type v \<noteq> Some ''Item Event''"
proof (cases "length (split (CHR '' '') expr) > 1")
  case True
  then have "parse_loop h expr (initial_vars (split (CHR '' '') expr)) = Inr v"
    using assms by (simp add: parse_expression_def initial_vars_def)
  then show ?thesis
    by (rule parse_loop_target_type) (simp add: initial_vars_def split_tokens)
next
  case False
  then show ?thesis
    using assms by (auto simp: parse_expression_def initial_vars_def)
qed


lemma validate_accepts:
  assumes "validate h expr v = Inr ()"
  shows "target_type v \<in> set [Some ''Item'', Some ''Member of'', Some ''Descendent of'',
                Some ''Thing'', Some ''Channel'', Some ''System'', Some ''Time'',
                Some ''Item Event'']"
    and "target_type v \<noteq> Some ''System'' \<Longrightarrow> trigger_type v \<noteq> None"
    and "target_type v = Some ''Member of'' \<or> target_type v = Some ''Descendent of''
         \<Longrightarrow> \<exists>g. getItem h (trigger_target v) = Some g \<and> itype g = ''Group''"
proof -
  have checks: "target_type_invalid v = Inr False" "trigger_type_missing v = Inr False"
    "not_a_group h v = Inr False"
    using assms by (simp_all add: validate_def else_if_accepts)
  show "target_type v \<in> set [Some ''Item'', Some ''Member of'', Some ''Descendent of'',
                Some ''Thing'', Some ''Channel'', Some ''System'', Some ''Time'',
                Some ''Item Event'']"
    using checks(1) by (simp add: target_type_invalid_def)
  show "trigger_type v \<noteq> None" if "target_type v \<noteq> Some ''System''"
    using checks(2) that by (auto simp: trigger_type_missing_def lifecycle_def)
  show "\<exists>g. getItem h (trigger_target v) = Some g \<and> itype g = ''Group''"
    if "target_type v = Some ''Member of'' \<or> target_type v = Some ''Descendent of''"
    using checks(3) that
    by (auto simp: not_a_group_def with_item_def split: option.splits)
qed

lemma when_returns:
  assumes "when h w0 expr = (Inr b, w1)"
  shows "b = Bad_trigger
       \<or> (\<exists>p u. parse_expression h expr = Inr p \<and> validate h expr p = Inr ()
                \<and> b = select_builder (p\<lparr>trigger_name := Some u\<rparr>))"
proof (cases "parse_expression h expr")
  case (Inl e)
  with assms show ?thesis
    by (cases e) (auto simp: when_def when_try_def)
next
  case (Inr p)
  show ?thesis
  proof (cases "validate h expr p")
    case (Inl e)
    with Inr assms show ?thesis
      by (cases e) (auto simp: when_def when_try_def)
  next
    case accepted: (Inr u)
    then have valid: "validate h expr p = Inr ()" by simp
    show ?thesis
      using when_eq [OF Inr valid, of w0] assms Inr valid by auto
  qed
qed

text \<open>
  Claim C9, as amended.  Every function that \<open>when\<close> returns, applied to a callback
  object, puts its entries after the entries the object's \<open>triggers\<close> list already
  holds and leaves every other attribute unchanged, so repeated applications
  accumulate.  Every function other than \<open>item_trigger\<close> puts exactly one entry: the
  \<open>null\<close> marker for \<open>bad_trigger\<close>, a trigger spec for the others.  \<open>item_trigger\<close>
  puts one trigger spec for each member it iterates over (the item itself for an Item
  target) and never the \<open>null\<close> marker.  The list is created when it is absent and an
  entry is put; when there is no member, the object is returned as it was.
  \<open>item_trigger\<close> looks its target up when it is applied: exactly when the registry
  does not hold the item, the call throws the registry's \<open>ItemNotFoundException\<close> and
  returns no object.  No other call of a returned function throws.
\<close>

theorem builders_only_append:
  assumes returned: "when h w0 expr = (Inr b, w1)"
  shows "if \<exists>v. b = Item_trigger v \<and> getItem h (trigger_target v) = None
         then call h w b func = Inl (JavaException ''ItemNotFoundException'')
         else \<exists>func' w' specs. call h w b func = Inr (func', w')
                \<and> appended func func' specs
                \<and> length specs = spec_count h b
                \<and> (if b = Bad_trigger then specs = [None] else None \<notin> set specs)"
proof (cases "\<exists>v. b = Item_trigger v")
  case False
  then have other: "\<And>v. b \<noteq> Item_trigger v" by blast
  have defined: "b \<noteq> Undefined_builder"
  proof
    assume undefined: "b = Undefined_builder"
    then obtain p u where p: "parse_expression h expr = Inr p" "validate h expr p = Inr ()"
      and b: "b = select_builder (p\<lparr>trigger_name := Some u\<rparr>)"
      using when_returns [OF returned] by auto
    have "target_type p \<noteq> Some ''Item Event''"
      using p(1) by (rule parse_expression_target_type)
    with validate_accepts(1) [OF p(2)] b undefined show False
      by (auto simp: select_builder_def split: if_splits)
  qed
  obtain t w' where one: "call h w b func = Inr (add_trigger func t, w')"
    and marker: "b = Bad_trigger \<longleftrightarrow> t = None"
    using call_appends_one [OF other defined] by blast
  have "spec_count h b = 1"
  proof (cases b)
    case (Item_trigger v)
    with other show ?thesis by blast
  next
    case Undefined_builder
    with defined show ?thesis by blast
  qed (simp_all add: spec_count_def)
  then have count: "length [t] = spec_count h b"
    by simp
  have lookup: "\<not> (\<exists>v. b = Item_trigger v \<and> getItem h (trigger_target v) = None)"
    using other by blast
  have kind: "if b = Bad_trigger then [t] = [None] else None \<notin> set [t]"
    using marker by auto
  have "\<exists>func' w' specs. call h w b func = Inr (func', w')
                \<and> appended func func' specs
                \<and> length specs = spec_count h b
                \<and> (if b = Bad_trigger then specs = [None] else None \<notin> set specs)"
    using one appended_add_trigger [of func t] count kind by blast
  then show ?thesis
    unfolding if_not_P [OF lookup] .
next
  case True
  then obtain v where b: "b = Item_trigger v" by blast
  then obtain p u where p: "parse_expression h expr = Inr p" "validate h expr p = Inr ()"
    and selected: "Item_trigger v = select_builder (p\<lparr>trigger_name := Some u\<rparr>)"
    using when_returns [OF returned] by auto
  have v: "v = p\<lparr>trigger_name := Some u\<rparr>"
    and type: "target_type p \<in> set [Some ''Item'', Some ''Member of'', Some ''Descendent of'']"
    using selected by (auto simp: select_builder_def split: if_splits)
  have "trigger_type p \<noteq> None"
    using type by (intro validate_accepts(2) [OF p(2)]) auto
  then obtain tt where tt: "trigger_type v = Some tt"
    by (auto simp: v)
  show ?thesis
  proof (cases "getItem h (trigger_target v)")
    case None
    with b have lookup: "\<exists>v. b = Item_trigger v \<and> getItem h (trigger_target v) = None"
      by blast
    have "call h w b func = Inl (JavaException ''ItemNotFoundException'')"
      using b None by (simp add: item_trigger_def)
    then show ?thesis
      unfolding if_P [OF lookup] .
  next
    case (Some item)
    have "\<exists>members. group_members_of v item = Inr members"
    proof (cases "target_type p = Some ''Item''")
      case True
      then show ?thesis by (simp add: group_members_of_def v)
    next
      case False
      with type have group: "target_type p = Some ''Member of'' \<or> target_type p = Some ''Descendent of''"
        by auto
      then have "itype item = ''Group''"
        using validate_accepts(3) [OF p(2)] Some by (auto simp: v)
      then show ?thesis by (simp add: group_members_of_def)
    qed
    then obtain members where members: "group_members_of v item = Inr members" by blast
    define specs where "specs = map Some (member_triggers h v (uuids_drawn w) members)"
    obtain l where result: "item_trigger h w v func =
       Inr (if members = [] then func
            else func\<lparr>triggers := Some (existing func @ specs)\<rparr>,
            w\<lparr>uuids_drawn := uuids_drawn w + 2 * length members, log := log w @ l\<rparr>)"
      using item_trigger_eq [OF Some members tt, of w func] by (auto simp: specs_def)
    have empty: "members = [] \<longleftrightarrow> specs = []"
      using length_member_triggers [of h v "uuids_drawn w" members]
      by (auto simp: specs_def)
    have "appended func (if members = [] then func
            else func\<lparr>triggers := Some (existing func @ specs)\<rparr>) specs"
      unfolding empty by (simp add: appended_def existing_def)
    moreover have "length specs = spec_count h b"
      by (simp add: specs_def spec_count_def b Some members length_member_triggers)
    moreover have "None \<notin> set specs"
      by (auto simp: specs_def)
    moreover have "call h w b func =
       Inr (if members = [] then func
            else func\<lparr>triggers := Some (existing func @ specs)\<rparr>,
            w\<lparr>uuids_drawn := uuids_drawn w + 2 * length members, log := log w @ l\<rparr>)"
      using b result by simp
    moreover have "if b = Bad_trigger then specs = [None] else None \<notin> set specs"
      using b \<open>None \<notin> set specs\<close> by simp
    ultimately have "\<exists>func' w' specs. call h w b func = Inr (func', w')
                \<and> appended func func' specs
                \<and> length specs = spec_count h b
                \<and> (if b = Bad_trigger then specs = [None] else None \<notin> set specs)"
      by blast
    moreover have "\<not> (\<exists>v. b = Item_trigger v \<and> getItem h (trigger_target v) = None)"
      using b Some by auto
    ultimately show ?thesis
      by (simp only: if_False)
  qed
qed

theorem builders_only_append_witness:
  "fst (when example_host new_world ''Member of gMotion_Sensors changed'') =
     Inr (Item_trigger \<lparr>input_list = [], target_type = Some ''Member of'',
            trigger_target = Some ''gMotion_Sensors'', trigger_type = Some ''changed'',
            trigger_name = Some
              ''Member_of_gMotion_Sensors_changed00000000-0000-4000-8000-000000000000'',
            old_state = None, new_state = None\<rparr>)
   \<and> (\<exists>func' w' specs.
         call example_host new_world
           (Item_trigger \<lparr>input_list = [], target_type = Some ''Member of'',
              trigger_target = Some ''gMotion_Sensors'', trigger_type = Some ''changed'',
              trigger_name = Some
                ''Member_of_gMotion_Sensors_changed00000000-0000-4000-8000-000000000000'',
              old_state = None, new_state = None\<rparr>)
           \<lparr>triggers = Some [None], \<dots> = ''rule body''\<rparr> = Inr (func', w')
         \<and> appended \<lparr>triggers = Some [None], \<dots> = ''rule body''\<rparr> func' specs
         \<and> length specs = 2 \<and> None \<notin> set specs)
   \<and> fst (when example_host new_world ''Foo bar'') = Inr Bad_trigger
   \<and> (\<exists>func' w'. call example_host new_world Bad_trigger \<lparr>triggers = None\<rparr> = Inr (func', w')
         \<and> appended \<lparr>triggers = None\<rparr> func' [None])"
proof -
  let ?b = "Item_trigger \<lparr>input_list = [], target_type = Some ''Member of'',
            trigger_target = Some ''gMotion_Sensors'', trigger_type = Some ''changed'',
            trigger_name = Some
              ''Member_of_gMotion_Sensors_changed00000000-0000-4000-8000-000000000000'',
            old_state = None, new_state = None\<rparr>"
  have first: "fst (when example_host new_world ''Member of gMotion_Sensors changed'') = Inr ?b"
    by code_simp
  then have returned: "when example_host new_world ''Member of gMotion_Sensors changed''
      = (Inr ?b, snd (when example_host new_world ''Member of gMotion_Sensors changed''))"
    by (simp add: prod_eq_iff)
  have found: "\<not> (\<exists>v. ?b = Item_trigger v \<and> getItem example_host (trigger_target v) = None)"
    by (simp add: example_host_def)
  have two: "spec_count example_host ?b = 2"
    by code_simp
  have group: "\<exists>func' w' specs.
         call example_host new_world ?b \<lparr>triggers = Some [None], \<dots> = ''rule body''\<rparr>
           = Inr (func', w')
         \<and> appended \<lparr>triggers = Some [None], \<dots> = ''rule body''\<rparr> func' specs
         \<and> length specs = 2 \<and> None \<notin> set specs"
    using builders_only_append [OF returned, where w = new_world
        and func = "\<lparr>triggers = Some [None], \<dots> = ''rule body''\<rparr>",
        unfolded if_not_P [OF found] two]
    by simp
  have second: "fst (when example_host new_world ''Foo bar'') = Inr Bad_trigger"
    by code_simp
  then have rejected: "when example_host new_world ''Foo bar''
      = (Inr Bad_trigger, snd (when example_host new_world ''Foo bar''))"
    by (simp add: prod_eq_iff)
  have poison: "\<exists>func' w'. call example_host new_world Bad_trigger \<lparr>triggers = None\<rparr>
           = Inr (func', w')
         \<and> appended \<lparr>triggers = None\<rparr> func' [None]"
    using builders_only_append [OF rejected, where w = new_world
        and func = "\<lparr>triggers = None\<rparr>"]
    by auto
  show ?thesis
    using first group second poison by blast
qed

text \<open>
  The claim as the specification states it, that applying a returned function always
  returns the object with the function's specs appended and the list created, fails
  in two ways.  \<open>when("Ghost")\<close> returns \<open>item_trigger\<close> although the registry holds no
  item of that name, and applying it throws.  For a group without members,
  \<open>item_trigger\<close> never reaches \<open>add_trigger\<close>, so an absent list stays absent.
\<close>

theorem returned_function_may_throw_or_add_nothing:
  "fst (when example_host new_world ''Ghost'') =
     Inr (Item_trigger \<lparr>input_list = [''Ghost''], target_type = Some ''Item'',
            trigger_target = Some ''Ghost'', trigger_type = Some ''changed'',
            trigger_name = Some ''Ghost00000000-0000-4000-8000-000000000000'',
            old_state = None, new_state = None\<rparr>)
   \<and> thrown (call example_host new_world
         (Item_trigger \<lparr>input_list = [''Ghost''], target_type = Some ''Item'',
            trigger_target = Some ''Ghost'', trigger_type = Some ''changed'',
            trigger_name = Some ''Ghost00000000-0000-4000-8000-000000000000'',
            old_state = None, new_state = None\<rparr>)
         \<lparr>triggers = None\<rparr>) = Some (JavaException ''ItemNotFoundException'')
   \<and> fst (when host_with_empty_group new_world ''Member of gEmpty changed'') =
     Inr (Item_trigger \<lparr>input_list = [], target_type = Some ''Member of'',
            trigger_target = Some ''gEmpty'', trigger_type = Some ''changed'',
            trigger_name = Some ''Member_of_gEmpty_changed00000000-0000-4000-8000-000000000000'',
            old_state = None, new_state = None\<rparr>)
   \<and> list_absent (call host_with_empty_group new_world
         (Item_trigger \<lparr>input_list = [], target_type = Some ''Member of'',
            trigger_target = Some ''gEmpty'', trigger_type = Some ''changed'',
            trigger_name = Some ''Member_of_gEmpty_changed00000000-0000-4000-8000-000000000000'',
            old_state = None, new_state = None\<rparr>)
         \<lparr>triggers = None\<rparr>)"
  by code_simp

end
